theory Spec2Isabelle
  imports Main "HOL-Library.AList"
begin

section \<open>Values, errors and callbacks\<close>

text \<open>
  State values are the JSON-representable values of the data model: scalars, ordered
  sequences and nested mappings. Numbers are taken to be integers.
\<close>

datatype json =
    JNull
  | JBool bool
  | JNum int
  | JStr string
  | JArr "json list"
  | JObj "(string \<times> json) list"

text \<open>
  A state is a mapping from top-level keys to values. \<open>{ ...a, ...b }\<close> is \<open>a ++ b\<close>.
\<close>

type_synonym js_state = "string \<rightharpoonup> json"

text \<open>The values that the code throws and catches.\<close>

datatype error =
    Error string
  | TypeError
  | SyntaxError
  | ENOENT
  | EACCES
  | QuotaExceeded

text \<open>
  A caller-supplied function (listener, event callback, middleware) is compared by
  reference in the source (\<open>l !== listener\<close>), so it carries its reference \<open>ref\<close>.
  The container only observes whether a call returns (\<open>None\<close>) or throws
  (\<open>Some e\<close>, also for a rejected promise, which \<open>await\<close> rethrows); \<open>run\<close> gives
  that outcome for the argument passed. Callbacks do not call back into the container.
\<close>

record 'a callback =
  ref :: nat
  run :: "'a \<Rightarrow> error option"

record middleware_entry =
  middleware :: "(js_state \<times> js_state) callback"
  enabled :: bool
  entry_options :: json

text \<open>
  What the container does to its collaborators, in the order it does it: the calls of
  middleware, listeners and event callbacks with their arguments, the errors handed to
  the error handler (or to \<open>console.error\<close> when none is registered) and the writes
  to the key/value storage.
\<close>

datatype event =
    MiddlewareCall nat js_state js_state
  | ListenerCall nat js_state
  | EventCall string nat json
  | ErrorHandlerCall nat error
  | ConsoleError error
  | StorageWrite string js_state

text \<open>
  The browser's \<open>localStorage\<close>, when the host has one. \<open>getItem\<close> is the result of
  \<open>getItem(key)\<close> followed by \<open>JSON.parse\<close>: nothing stored (or the empty string),
  text that does not parse, or a stored state. \<open>setItem\<close> tells whether writing a
  state under a key throws.
\<close>

datatype stored = NoItem | BadItem error | Item js_state

record storage =
  getItem :: "string \<Rightarrow> stored"
  setItem :: "string \<Rightarrow> js_state \<Rightarrow> error option"

section \<open>The state container (stateManager.js)\<close>

text \<open>
  The fields of \<open>StateManager\<close>. \<open>debounceTimeout\<close> is the pending timer, if any:
  the time at which it fires and the arguments its callback closes over. The last three
  fields are the environment the container runs in: the record of its calls to
  collaborators, the current time and the global \<open>localStorage\<close>.
\<close>

record manager =
  state :: js_state
  initialState :: js_state
  listeners :: "js_state callback list"
  middlewares :: "middleware_entry list"
  eventListeners :: "(string \<times> json callback list) list"
  undoStack :: "js_state list"
  redoStack :: "js_state list"
  prevState :: js_state
  debounceTimeout :: "(nat \<times> js_state \<times> bool) option"
  debounceDelay :: nat
  batchUpdatePending :: bool
  batchUpdateQueue :: "js_state list"
  deepStateComparison :: bool
  localStorageKey :: string
  errorHandler :: "nat option"
  log :: "event list"
  clock :: nat
  localStorage :: "storage option"

text \<open>
  States are objects of JSON-representable values, as the data model has them. On such
  values nothing between the calls of the callbacks throws, and what a callback throws
  is caught where it is called; so the \<open>catch\<close> branches around the bodies of
  \<open>setState\<close>, \<open>applyStateUpdate\<close>, \<open>mergeState\<close> and \<open>patchState\<close> are
  never entered and have no counterpart below. Event names are taken not to be names
  that every object inherits (\<open>toString\<close>, \<open>constructor\<close>).
\<close>

text \<open>
  The two ways the source copies a state. On the values of the data model both give a
  value equal to the original; which objects they share with it is the subject of the
  store model further down.
\<close>

definition JSON_roundtrip :: "js_state \<Rightarrow> js_state" where
  "JSON_roundtrip s = s"

definition spread :: "js_state \<Rightarrow> js_state" where
  "spread s = s"

definition copy_state :: "manager \<Rightarrow> js_state \<Rightarrow> js_state" where
  "copy_state m s = (if deepStateComparison m then JSON_roundtrip s else spread s)"

text \<open>
  The error handler is the error-reporting collaborator, a function from the error to
  nothing: a call of it is recorded and returns. So does \<open>console.error\<close>.
\<close>

definition handleError :: "error \<Rightarrow> manager \<Rightarrow> manager" where
  "handleError err m =
     (case errorHandler m of
        Some h \<Rightarrow> m\<lparr>log := log m @ [ErrorHandlerCall h err]\<rparr>
      | None \<Rightarrow> m\<lparr>log := log m @ [ConsoleError err]\<rparr>)"

definition persistStateToLocalStorage :: "manager \<Rightarrow> manager" where
  "persistStateToLocalStorage m =
     (case localStorage m of
        None \<Rightarrow> m
      | Some st \<Rightarrow>
          (case setItem st (localStorageKey m) (state m) of
             None \<Rightarrow> m\<lparr>log := log m @ [StorageWrite (localStorageKey m) (state m)]\<rparr>
           | Some err \<Rightarrow> handleError err m))"

definition initializeStateFromLocalStorage :: "manager \<Rightarrow> manager" where
  "initializeStateFromLocalStorage m =
     (case localStorage m of
        None \<Rightarrow> m
      | Some st \<Rightarrow>
          (case getItem st (localStorageKey m) of
             NoItem \<Rightarrow> m
           | Item s \<Rightarrow> m\<lparr>state := s, prevState := s\<rparr>
           | BadItem err \<Rightarrow> handleError err m))"

definition constructor :: "js_state \<Rightarrow> storage option \<Rightarrow> manager" where
  "constructor initial ls =
     (initializeStateFromLocalStorage
        \<lparr>state = initial, initialState = spread initial, listeners = [], middlewares = [],
         eventListeners = [], undoStack = [], redoStack = [], prevState = spread initial,
         debounceTimeout = None, debounceDelay = 200, batchUpdatePending = False,
         batchUpdateQueue = [], deepStateComparison = False,
         localStorageKey = ''1cbycStateManagerState'', errorHandler = None,
         log = [], clock = 0, localStorage = ls\<rparr>)
     \<lparr>errorHandler := None\<rparr>"

definition getState :: "manager \<Rightarrow> js_state" where
  "getState m = copy_state m (state m)"

subsection \<open>Middleware\<close>

definition applyMiddleware :: "(js_state \<times> js_state) callback \<Rightarrow> json \<Rightarrow> manager \<Rightarrow> manager" where
  "applyMiddleware mw opts m =
     m\<lparr>middlewares := middlewares m @ [\<lparr>middleware = mw, enabled = True, entry_options = opts\<rparr>]\<rparr>"

text \<open>The body of the \<open>for\<close> loop of \<open>applyMiddlewares\<close>, over the enabled middleware.\<close>

fun run_middlewares ::
  "(js_state \<times> js_state) callback list \<Rightarrow> js_state \<Rightarrow> js_state \<Rightarrow> manager \<Rightarrow> manager" where
  "run_middlewares [] prev nxt m = m"
| "run_middlewares (mw # mws) prev nxt m =
     (let m1 = m\<lparr>log := log m @ [MiddlewareCall (ref mw) prev nxt]\<rparr>;
          m2 = (case run mw (prev, nxt) of None \<Rightarrow> m1 | Some err \<Rightarrow> handleError err m1)
      in run_middlewares mws prev nxt m2)"

definition enabledMiddlewares :: "manager \<Rightarrow> (js_state \<times> js_state) callback list" where
  "enabledMiddlewares m = map middleware (filter enabled (middlewares m))"

definition applyMiddlewares :: "js_state \<Rightarrow> js_state \<Rightarrow> manager \<Rightarrow> manager" where
  "applyMiddlewares prev nxt m = run_middlewares (enabledMiddlewares m) prev nxt m"

definition enableMiddleware :: "nat \<Rightarrow> manager \<Rightarrow> manager" where
  "enableMiddleware i m =
     (if i < length (middlewares m)
      then m\<lparr>middlewares := (middlewares m)[i := (middlewares m ! i)\<lparr>enabled := True\<rparr>]\<rparr>
      else m)"

definition disableMiddleware :: "nat \<Rightarrow> manager \<Rightarrow> manager" where
  "disableMiddleware i m =
     (if i < length (middlewares m)
      then m\<lparr>middlewares := (middlewares m)[i := (middlewares m ! i)\<lparr>enabled := False\<rparr>]\<rparr>
      else m)"

definition removeAllMiddlewares :: "manager \<Rightarrow> manager" where
  "removeAllMiddlewares m = m\<lparr>middlewares := []\<rparr>"

definition setErrorHandler :: "nat \<Rightarrow> manager \<Rightarrow> manager" where
  "setErrorHandler h m = m\<lparr>errorHandler := Some h\<rparr>"

subsection \<open>Notification\<close>

text \<open>
  \<open>Object.keys\<close> lists the integer-like keys first, in ascending order, then the other
  keys in the order they were added.
\<close>

definition is_digit :: "char \<Rightarrow> bool" where
  "is_digit c = (c \<in> set ''0123456789'')"

definition digit_value :: "char \<Rightarrow> nat" where
  "digit_value c = of_char c - 48"

definition dec_value :: "string \<Rightarrow> nat" where
  "dec_value s = foldl (\<lambda>n c. 10 * n + digit_value c) 0 s"

definition is_array_index :: "string \<Rightarrow> bool" where
  "is_array_index s =
     (s \<noteq> [] \<and> list_all is_digit s \<and> (s = ''0'' \<or> hd s \<noteq> CHR ''0'') \<and>
      dec_value s < 4294967295)"

definition Object_keys :: "(string \<times> 'a) list \<Rightarrow> string list" where
  "Object_keys obj =
     sort_key dec_value (filter is_array_index (map fst obj)) @
     filter (\<lambda>k. \<not> is_array_index k) (map fst obj)"

fun call_listeners :: "js_state callback list \<Rightarrow> manager \<Rightarrow> manager" where
  "call_listeners [] m = m"
| "call_listeners (listener # ls) m =
     (let m1 = m\<lparr>log := log m @ [ListenerCall (ref listener) (getState m)]\<rparr>;
          m2 = (case run listener (getState m) of None \<Rightarrow> m1 | Some err \<Rightarrow> handleError err m1)
      in call_listeners ls m2)"

fun call_callbacks :: "string \<Rightarrow> json \<Rightarrow> json callback list \<Rightarrow> manager \<Rightarrow> manager" where
  "call_callbacks eventName v [] m = m"
| "call_callbacks eventName v (cb # cbs) m =
     (let m1 = m\<lparr>log := log m @ [EventCall eventName (ref cb) v]\<rparr>;
          m2 = (case run cb v of None \<Rightarrow> m1 | Some err \<Rightarrow> handleError err m1)
      in call_callbacks eventName v cbs m2)"

fun notify_events :: "string list \<Rightarrow> manager \<Rightarrow> manager" where
  "notify_events [] m = m"
| "notify_events (eventName # names) m =
     (let m1 = (case state m eventName of
                  None \<Rightarrow> m
                | Some v \<Rightarrow>
                    (case map_of (eventListeners m) eventName of
                       None \<Rightarrow> m
                     | Some cbs \<Rightarrow> call_callbacks eventName v cbs m))
      in notify_events names m1)"

definition notifyListeners :: "manager \<Rightarrow> manager" where
  "notifyListeners m =
     notify_events (Object_keys (eventListeners m)) (call_listeners (listeners m) m)"

definition triggerEvent :: "string \<Rightarrow> json \<Rightarrow> manager \<Rightarrow> manager" where
  "triggerEvent eventName eventData m =
     (case map_of (eventListeners m) eventName of
        None \<Rightarrow> m
      | Some cbs \<Rightarrow> call_callbacks eventName eventData cbs m)"

subsection \<open>Subscriptions\<close>

text \<open>
  \<open>subscribe\<close> and \<open>on\<close> return the new container and the detach function. The detach
  function of \<open>on\<close> reads \<open>this.eventListeners[eventName].filter\<close>, a \<open>TypeError\<close>
  when the whole registry has been reset since and the name is gone.
\<close>

definition subscribe :: "js_state callback \<Rightarrow> manager \<Rightarrow> manager \<times> (manager \<Rightarrow> manager)" where
  "subscribe listener m =
     (m\<lparr>listeners := listeners m @ [listener]\<rparr>,
      \<lambda>m'. m'\<lparr>listeners := filter (\<lambda>l. ref l \<noteq> ref listener) (listeners m')\<rparr>)"

definition on ::
  "string \<Rightarrow> json callback \<Rightarrow> manager \<Rightarrow> manager \<times> (manager \<Rightarrow> error option \<times> manager)" where
  "on eventName callback m =
     (let m1 = (case map_of (eventListeners m) eventName of
                  None \<Rightarrow> m\<lparr>eventListeners := AList.update eventName [] (eventListeners m)\<rparr>
                | Some cbs \<Rightarrow> m)
      in (m1\<lparr>eventListeners := AList.map_entry eventName (\<lambda>cbs. cbs @ [callback]) (eventListeners m1)\<rparr>,
          \<lambda>m'. (case map_of (eventListeners m') eventName of
                   None \<Rightarrow> (Some TypeError, m')
                 | Some cbs \<Rightarrow>
                     (None, m'\<lparr>eventListeners :=
                        AList.update eventName (filter (\<lambda>cb. ref cb \<noteq> ref callback) cbs)
                          (eventListeners m')\<rparr>))))"

definition removeAllListeners :: "manager \<Rightarrow> manager" where
  "removeAllListeners m = m\<lparr>listeners := []\<rparr>"

definition removeAllEventListeners :: "string option \<Rightarrow> manager \<Rightarrow> manager" where
  "removeAllEventListeners eventName m =
     (case eventName of
        None \<Rightarrow> m\<lparr>eventListeners := []\<rparr>
      | Some n \<Rightarrow>
          (if n \<noteq> [] then m\<lparr>eventListeners := AList.update n [] (eventListeners m)\<rparr>
           else m\<lparr>eventListeners := []\<rparr>))"

subsection \<open>The commit path\<close>

definition applyStateUpdate :: "js_state \<Rightarrow> bool \<Rightarrow> manager \<Rightarrow> manager" where
  "applyStateUpdate nextState addToUndoStack m =
     (let m1 = applyMiddlewares (prevState m) nextState m;
          m2 = (if addToUndoStack
                then m1\<lparr>undoStack := undoStack m1 @ [copy_state m1 (state m1)], redoStack := []\<rparr>
                else m1);
          m3 = m2\<lparr>prevState := copy_state m2 (state m2)\<rparr>;
          m4 = m3\<lparr>state := nextState\<rparr>
      in persistStateToLocalStorage (notifyListeners m4))"

text \<open>
  With \<open>debounce\<close> set, \<open>clearTimeout\<close> drops the pending timer and \<open>setTimeout\<close>
  sets the new one, due \<open>debounceDelay\<close> from now.
\<close>

definition setState :: "js_state \<Rightarrow> bool \<Rightarrow> bool \<Rightarrow> manager \<Rightarrow> manager" where
  "setState newState addToUndoStack debounce m =
     (let nextState = copy_state m newState
      in if debounce
         then m\<lparr>debounceTimeout := Some (clock m + debounceDelay m, nextState, addToUndoStack)\<rparr>
         else applyStateUpdate nextState addToUndoStack m)"

text \<open>
  Time passes: a pending timer that has become due fires and runs its callback.
\<close>

definition advance :: "nat \<Rightarrow> manager \<Rightarrow> manager" where
  "advance dt m =
     (let m1 = m\<lparr>clock := clock m + dt\<rparr>
      in case debounceTimeout m1 of
           None \<Rightarrow> m1
         | Some (due, nextState, addToUndoStack) \<Rightarrow>
             if due \<le> clock m1
             then applyStateUpdate nextState addToUndoStack (m1\<lparr>debounceTimeout := None\<rparr>)
             else m1)"

definition setDebounce :: "nat \<Rightarrow> manager \<Rightarrow> manager" where
  "setDebounce delay m = m\<lparr>debounceDelay := delay\<rparr>"

definition mergeState :: "js_state \<Rightarrow> manager \<Rightarrow> manager" where
  "mergeState partialState m =
     (let nextState = copy_state m (state m ++ partialState);
          m1 = applyMiddlewares (prevState m) nextState m;
          m2 = m1\<lparr>prevState := copy_state m1 (state m1)\<rparr>;
          m3 = m2\<lparr>state := nextState\<rparr>
      in persistStateToLocalStorage (notifyListeners m3))"

definition patchState :: "js_state \<Rightarrow> manager \<Rightarrow> manager" where
  "patchState partialState m =
     (let nextState = copy_state m (state m ++ partialState);
          m1 = applyMiddlewares (prevState m) nextState m;
          m2 = m1\<lparr>prevState := copy_state m1 (state m1)\<rparr>;
          m3 = m2\<lparr>state := nextState\<rparr>
      in persistStateToLocalStorage (notifyListeners m3))"

definition resetState :: "manager \<Rightarrow> manager" where
  "resetState m =
     (let prev = copy_state m (state m);
          m1 = m\<lparr>state := copy_state m (initialState m)\<rparr>;
          m2 = m1\<lparr>prevState := copy_state m1 (initialState m1)\<rparr>;
          m3 = applyMiddlewares prev (state m2) m2
      in persistStateToLocalStorage (notifyListeners m3))"

subsection \<open>History\<close>

definition undo :: "manager \<Rightarrow> manager" where
  "undo m =
     (if length (undoStack m) > 0
      then (let popped = last (undoStack m);
                m1 = m\<lparr>undoStack := butlast (undoStack m)\<rparr>;
                m2 = m1\<lparr>redoStack := redoStack m1 @ [copy_state m1 (state m1)]\<rparr>;
                m3 = m2\<lparr>state := popped\<rparr>
            in persistStateToLocalStorage (notifyListeners m3))
      else m)"

definition redo :: "manager \<Rightarrow> manager" where
  "redo m =
     (if length (redoStack m) > 0
      then (let popped = last (redoStack m);
                m1 = m\<lparr>redoStack := butlast (redoStack m)\<rparr>;
                m2 = m1\<lparr>undoStack := undoStack m1 @ [copy_state m1 (state m1)]\<rparr>;
                m3 = m2\<lparr>state := popped\<rparr>
            in persistStateToLocalStorage (notifyListeners m3))
      else m)"

definition clearHistory :: "manager \<Rightarrow> manager" where
  "clearHistory m = m\<lparr>undoStack := [], redoStack := []\<rparr>"

definition getUndoStackSize :: "manager \<Rightarrow> nat" where
  "getUndoStackSize m = length (undoStack m)"

definition getRedoStackSize :: "manager \<Rightarrow> nat" where
  "getRedoStackSize m = length (redoStack m)"

subsection \<open>Batches\<close>

definition startBatchUpdate :: "manager \<Rightarrow> manager" where
  "startBatchUpdate m = m\<lparr>batchUpdatePending := True, batchUpdateQueue := []\<rparr>"

text \<open>\<open>Object.assign({}, ...queue)\<close>: the queued objects are merged from left to right.\<close>

definition Object_assign :: "js_state \<Rightarrow> js_state list \<Rightarrow> js_state" where
  "Object_assign target sources = foldl (++) target sources"

definition endBatchUpdate :: "manager \<Rightarrow> manager" where
  "endBatchUpdate m =
     (let m1 = m\<lparr>batchUpdatePending := False\<rparr>
      in if length (batchUpdateQueue m1) > 0
         then (let nextState = Object_assign Map.empty (batchUpdateQueue m1);
                   m2 = m1\<lparr>batchUpdateQueue := []\<rparr>
               in setState nextState True False m2)
         else m1)"

definition queueBatchUpdate :: "js_state \<Rightarrow> manager \<Rightarrow> manager" where
  "queueBatchUpdate partialState m =
     (if batchUpdatePending m
      then m\<lparr>batchUpdateQueue := batchUpdateQueue m @ [partialState]\<rparr>
      else mergeState partialState m)"

section \<open>The record of a commit\<close>

text \<open>
  The calls a run of the container makes are described by lists of events. A callback
  that throws is followed by the report of its error, to the registered handler or to
  the console.
\<close>

definition report :: "nat option \<Rightarrow> error \<Rightarrow> event" where
  "report h err = (case h of Some r \<Rightarrow> ErrorHandlerCall r err | None \<Rightarrow> ConsoleError err)"

definition thrown :: "nat option \<Rightarrow> error option \<Rightarrow> event list" where
  "thrown h outcome = (case outcome of None \<Rightarrow> [] | Some err \<Rightarrow> [report h err])"

definition middleware_events :: "nat option \<Rightarrow> js_state \<Rightarrow> js_state \<Rightarrow> (js_state \<times> js_state) callback list \<Rightarrow> event list" where
  "middleware_events h prev nxt mws =
     concat (map (\<lambda>mw. MiddlewareCall (ref mw) prev nxt # thrown h (run mw (prev, nxt))) mws)"

definition listener_events :: "nat option \<Rightarrow> js_state \<Rightarrow> js_state callback list \<Rightarrow> event list" where
  "listener_events h s ls = concat (map (\<lambda>l. ListenerCall (ref l) s # thrown h (run l s)) ls)"

definition callback_events :: "nat option \<Rightarrow> string \<Rightarrow> json \<Rightarrow> json callback list \<Rightarrow> event list" where
  "callback_events h eventName v cbs =
     concat (map (\<lambda>cb. EventCall eventName (ref cb) v # thrown h (run cb v)) cbs)"

definition key_events :: "nat option \<Rightarrow> (string \<times> json callback list) list \<Rightarrow> js_state \<Rightarrow> string \<Rightarrow> event list" where
  "key_events h els s eventName =
     (case s eventName of None \<Rightarrow> []
      | Some v \<Rightarrow> (case map_of els eventName of None \<Rightarrow> []
                   | Some cbs \<Rightarrow> callback_events h eventName v cbs))"

definition notify_log ::
  "nat option \<Rightarrow> js_state callback list \<Rightarrow> (string \<times> json callback list) list \<Rightarrow> js_state \<Rightarrow> event list" where
  "notify_log h ls els s =
     listener_events h s ls @ concat (map (key_events h els s) (Object_keys els))"

definition persist_log :: "nat option \<Rightarrow> storage option \<Rightarrow> string \<Rightarrow> js_state \<Rightarrow> event list" where
  "persist_log h ls key s =
     (case ls of None \<Rightarrow> []
      | Some st \<Rightarrow> (case setItem st key s of
                      None \<Rightarrow> [StorageWrite key s]
                    | Some err \<Rightarrow> [report h err]))"

definition commit_log :: "manager \<Rightarrow> js_state \<Rightarrow> js_state \<Rightarrow> event list" where
  "commit_log m prev s =
     middleware_events (errorHandler m) prev s (enabledMiddlewares m) @
     notify_log (errorHandler m) (listeners m) (eventListeners m) s @
     persist_log (errorHandler m) (localStorage m) (localStorageKey m) s"

text \<open>Which events are calls of middleware, calls of listeners, reports of errors.\<close>

fun is_middleware_call :: "event \<Rightarrow> bool" where
  "is_middleware_call (MiddlewareCall r prev nxt) = True"
| "is_middleware_call e = False"

fun is_listener_call :: "event \<Rightarrow> bool" where
  "is_listener_call (ListenerCall r s) = True"
| "is_listener_call e = False"

fun is_error_report :: "event \<Rightarrow> bool" where
  "is_error_report (ErrorHandlerCall h err) = True"
| "is_error_report (ConsoleError err) = True"
| "is_error_report e = False"


section \<open>Scenarios\<close>

text \<open>
  A burst of debounced \<open>setState\<close> calls: before each call some time passes. Each
  entry gives the time waited, the state passed and the \<open>addToUndoStack\<close> flag.
\<close>

fun burst :: "(nat \<times> js_state \<times> bool) list \<Rightarrow> manager \<Rightarrow> manager" where
  "burst [] m = m"
| "burst ((dt, s, a) # calls) m = burst calls (setState s a True (advance dt m))"

text \<open>
  Callbacks and a container for the concrete runs below: a middleware that throws, one
  that returns, a listener and an event callback that return, and a container with an
  error handler, the two middleware (the throwing one first) and the listener.
\<close>

definition throwing_mw :: "(js_state \<times> js_state) callback" where
  "throwing_mw = \<lparr>ref = 1, run = (\<lambda>p. Some (Error ''Middleware error''))\<rparr>"

definition quiet_mw :: "(js_state \<times> js_state) callback" where
  "quiet_mw = \<lparr>ref = 2, run = (\<lambda>p. None)\<rparr>"

definition quiet_listener :: "js_state callback" where
  "quiet_listener = \<lparr>ref = 3, run = (\<lambda>s. None)\<rparr>"

definition quiet_callback :: "json callback" where
  "quiet_callback = \<lparr>ref = 4, run = (\<lambda>v. None)\<rparr>"

definition store_with_failing_middleware :: manager where
  "store_with_failing_middleware =
     fst (subscribe quiet_listener
       (applyMiddleware quiet_mw (JObj [(''selective'', JBool False)])
         (applyMiddleware throwing_mw (JObj [(''selective'', JBool False)])
           (setErrorHandler 9 (constructor Map.empty None)))))"

section \<open>The persistence service (persistenceMiddleware.js)\<close>

subsection \<open>The collaborators\<close>

text \<open>
  The filesystem: the content of each file that exists, the paths at which a write is
  rejected (a read-only file, a missing directory) and the paths that cannot be reached
  at all. An operation either fails with an error, leaving the files as they are, or
  succeeds. File contents are byte strings and the size of a file is their length.
\<close>

record fsys =
  files :: "string \<rightharpoonup> string"
  unwritable :: "string set"
  inaccessible :: "string set"

definition fs_writeFile :: "string \<Rightarrow> string \<Rightarrow> fsys \<Rightarrow> error + fsys" where
  "fs_writeFile path content fs =
     (if path \<in> unwritable fs \<or> path \<in> inaccessible fs then Inl EACCES
      else Inr (fs\<lparr>files := (files fs)(path \<mapsto> content)\<rparr>))"

definition fs_readFile :: "string \<Rightarrow> fsys \<Rightarrow> error + string" where
  "fs_readFile path fs =
     (if path \<in> inaccessible fs then Inl EACCES
      else case files fs path of None \<Rightarrow> Inl ENOENT | Some content \<Rightarrow> Inr content)"

definition fs_copyFile :: "string \<Rightarrow> string \<Rightarrow> fsys \<Rightarrow> error + fsys" where
  "fs_copyFile src dst fs =
     (case fs_readFile src fs of
        Inl err \<Rightarrow> Inl err
      | Inr content \<Rightarrow> fs_writeFile dst content fs)"

definition fs_stat :: "string \<Rightarrow> fsys \<Rightarrow> error + nat" where
  "fs_stat path fs =
     (if path \<in> inaccessible fs then Inl EACCES
      else case files fs path of None \<Rightarrow> Inl ENOENT | Some content \<Rightarrow> Inr (length content))"

definition fs_access :: "string \<Rightarrow> fsys \<Rightarrow> error + unit" where
  "fs_access path fs =
     (if path \<in> inaccessible fs then Inl EACCES
      else case files fs path of None \<Rightarrow> Inl ENOENT | Some content \<Rightarrow> Inr ())"

definition fs_unlink :: "string \<Rightarrow> fsys \<Rightarrow> error + fsys" where
  "fs_unlink path fs =
     (if path \<in> unwritable fs \<or> path \<in> inaccessible fs then Inl EACCES
      else case files fs path of
             None \<Rightarrow> Inl ENOENT
           | Some content \<Rightarrow> Inr (fs\<lparr>files := (files fs)(path := None)\<rparr>))"

definition fs_truncate :: "string \<Rightarrow> fsys \<Rightarrow> error + fsys" where
  "fs_truncate path fs =
     (if path \<in> unwritable fs \<or> path \<in> inaccessible fs then Inl EACCES
      else case files fs path of
             None \<Rightarrow> Inl ENOENT
           | Some content \<Rightarrow> Inr (fs\<lparr>files := (files fs)(path \<mapsto> [])\<rparr>))"

text \<open>
  The serialisation functions of the platform are parameters of the service:
  \<open>JSON.stringify(value, null, spaces)\<close>, \<open>JSON.parse(text)\<close> and
  \<open>value.toString()\<close>, each of which returns or throws.
\<close>

record codec =
  stringify :: "json \<Rightarrow> nat \<Rightarrow> error + string"
  parse :: "string \<Rightarrow> error + json"
  toString :: "json \<Rightarrow> error + string"

text \<open>What \<open>if (v)\<close> and \<open>v && ...\<close> test.\<close>

fun truthy :: "json \<Rightarrow> bool" where
  "truthy JNull = False"
| "truthy (JBool b) = b"
| "truthy (JNum n) = (n \<noteq> 0)"
| "truthy (JStr s) = (s \<noteq> [])"
| "truthy (JArr vs) = True"
| "truthy (JObj fs) = True"

subsection \<open>The service\<close>

record persistence_options =
  spaces :: nat
  fileType :: string
  version :: int

record service =
  filePath :: string
  options :: persistence_options

definition default_options :: persistence_options where
  "default_options = \<lparr>spaces = 2, fileType = ''json'', version = 1\<rparr>"

definition PersistenceMiddleware :: "string \<Rightarrow> persistence_options \<Rightarrow> service" where
  "PersistenceMiddleware path opts = \<lparr>filePath = path, options = opts\<rparr>"

text \<open>
  Each operation takes the filesystem and returns its result; the operations that write
  return the new filesystem, too. The diagnostics written with \<open>console.error\<close> are
  left out. \<open>null\<close> is \<open>JNull\<close>.
\<close>

definition saveState :: "codec \<Rightarrow> json \<Rightarrow> service \<Rightarrow> fsys \<Rightarrow> bool \<times> fsys" where
  "saveState c st svc fs =
     (case (if fileType (options svc) = ''json''
            then stringify c st (spaces (options svc))
            else toString c st) of
        Inl err \<Rightarrow> (False, fs)
      | Inr serializedState \<Rightarrow>
          (case fs_writeFile (filePath svc) serializedState fs of
             Inl err \<Rightarrow> (False, fs)
           | Inr fs' \<Rightarrow> (True, fs')))"

definition parseFileContent :: "codec \<Rightarrow> service \<Rightarrow> string \<Rightarrow> json" where
  "parseFileContent c svc content =
     (if fileType (options svc) = ''json''
      then (case parse c content of Inl err \<Rightarrow> JNull | Inr v \<Rightarrow> v)
      else JStr content)"

definition loadState :: "codec \<Rightarrow> service \<Rightarrow> fsys \<Rightarrow> json" where
  "loadState c svc fs =
     (case fs_readFile (filePath svc) fs of
        Inl err \<Rightarrow> JNull
      | Inr fileContent \<Rightarrow> parseFileContent c svc fileContent)"

definition persistState :: "codec \<Rightarrow> json \<Rightarrow> json \<Rightarrow> service \<Rightarrow> fsys \<Rightarrow> bool \<times> fsys" where
  "persistState c prev nxt svc fs = saveState c nxt svc fs"

definition deleteFile :: "service \<Rightarrow> fsys \<Rightarrow> bool \<times> fsys" where
  "deleteFile svc fs =
     (case fs_unlink (filePath svc) fs of Inl err \<Rightarrow> (False, fs) | Inr fs' \<Rightarrow> (True, fs'))"

definition fileExists :: "string \<Rightarrow> fsys \<Rightarrow> bool" where
  "fileExists path fs = (case fs_access path fs of Inl err \<Rightarrow> False | Inr u \<Rightarrow> True)"

definition backupState :: "codec \<Rightarrow> json \<Rightarrow> service \<Rightarrow> fsys \<Rightarrow> bool \<times> fsys" where
  "backupState c st svc fs =
     (let backupPath = filePath svc @ ''.backup'';
          fs1 = snd (saveState c st svc fs)
      in case fs_copyFile (filePath svc) backupPath fs1 of
           Inl err \<Rightarrow> (False, fs1)
         | Inr fs2 \<Rightarrow> (True, fs2))"

definition restoreFromBackup :: "codec \<Rightarrow> service \<Rightarrow> fsys \<Rightarrow> json \<times> fsys" where
  "restoreFromBackup c svc fs =
     (let backupPath = filePath svc @ ''.backup''
      in if fileExists backupPath fs
         then (case fs_copyFile backupPath (filePath svc) fs of
                 Inl err \<Rightarrow> (JNull, fs)
               | Inr fs1 \<Rightarrow> (loadState c svc fs1, fs1))
         else (JNull, fs))"

definition validateState :: "codec \<Rightarrow> json \<Rightarrow> bool" where
  "validateState c st =
     (case stringify c st 0 of
        Inl err \<Rightarrow> False
      | Inr serialized \<Rightarrow> (case parse c serialized of Inl err \<Rightarrow> False | Inr v \<Rightarrow> True))"

definition saveStateWithValidation :: "codec \<Rightarrow> json \<Rightarrow> service \<Rightarrow> fsys \<Rightarrow> bool \<times> fsys" where
  "saveStateWithValidation c st svc fs =
     (if validateState c st then saveState c st svc fs else (False, fs))"

definition loadStateWithValidation :: "codec \<Rightarrow> service \<Rightarrow> fsys \<Rightarrow> json" where
  "loadStateWithValidation c svc fs =
     (let st = loadState c svc fs
      in if truthy st \<and> validateState c st then st else JNull)"

definition getFileSize :: "service \<Rightarrow> fsys \<Rightarrow> nat" where
  "getFileSize svc fs = (case fs_stat (filePath svc) fs of Inl err \<Rightarrow> 0 | Inr stats_size \<Rightarrow> stats_size)"

definition isFileEmpty :: "service \<Rightarrow> fsys \<Rightarrow> bool" where
  "isFileEmpty svc fs = (getFileSize svc fs = 0)"

definition truncateFile :: "service \<Rightarrow> fsys \<Rightarrow> bool \<times> fsys" where
  "truncateFile svc fs =
     (case fs_truncate (filePath svc) fs of Inl err \<Rightarrow> (False, fs) | Inr fs' \<Rightarrow> (True, fs'))"

text \<open>
  For the concrete runs: a filesystem in which \<open>state.json\<close> exists and is read-only,
  and the serialisation functions on the number \<open>0\<close>, the only value the runs give them.
\<close>

definition readonly_fs :: fsys where
  "readonly_fs =
     \<lparr>files = [''state.json'' \<mapsto> ''{}''], unwritable = {''state.json''}, inaccessible = {}\<rparr>"

definition zero_codec :: codec where
  "zero_codec =
     \<lparr>stringify = (\<lambda>v n. if v = JNum 0 then Inr ''0'' else Inl TypeError),
      parse = (\<lambda>s. if s = ''0'' then Inr (JNum 0) else Inl SyntaxError),
      toString = (\<lambda>v. if v = JNum 0 then Inr ''0'' else Inl TypeError)\<rparr>"

section \<open>Objects, references and copies\<close>

text \<open>
  Whether a caller who holds a value returned by \<open>getState\<close> can change the state
  through it depends on which objects the two share. Here a value is a scalar or a
  reference to an object of the heap, an object has its own properties in insertion
  order (an array has its indices as keys), and the heap is the list of the objects
  allocated so far: the address of an object is its position, and a new object goes to
  the end.
\<close>

datatype val = VNull | VBool bool | VNum int | VStr string | VRef nat

datatype obj = Obj (is_array: bool) (props: "(string \<times> val) list")

type_synonym heap = "obj list"

fun dec :: "nat \<Rightarrow> string" where
  "dec n = (if n < 10 then [char_of (48 + n)] else dec (n div 10) @ [char_of (48 + n mod 10)])"

declare dec.simps [simp del]

text \<open>
  \<open>JSON.stringify\<close> walks the object graph from a value and throws a \<open>TypeError\<close>
  when an object contains itself. A walk that never meets an object twice on its way
  down passes at most as many objects as the heap has, so the walk is cut at that
  depth. The text it produces and \<open>JSON.parse\<close> reads back is represented by the
  \<open>json\<close> tree.
\<close>

fun read_json :: "nat \<Rightarrow> heap \<Rightarrow> val \<Rightarrow> json option" where
  "read_json fuel h VNull = Some JNull"
| "read_json fuel h (VBool b) = Some (JBool b)"
| "read_json fuel h (VNum n) = Some (JNum n)"
| "read_json fuel h (VStr s) = Some (JStr s)"
| "read_json 0 h (VRef a) = None"
| "read_json (Suc fuel) h (VRef a) =
     (if a < length h
      then (case those (map (\<lambda>p. map_option (Pair (fst p)) (read_json fuel h (snd p)))
                         (props (h ! a))) of
              None \<Rightarrow> None
            | Some fs \<Rightarrow> Some (if is_array (h ! a) then JArr (map snd fs) else JObj fs))
      else None)"

definition JSON_stringify :: "heap \<Rightarrow> val \<Rightarrow> error + json" where
  "JSON_stringify h v =
     (case read_json (length h) h v of None \<Rightarrow> Inl TypeError | Some j \<Rightarrow> Inr j)"

text \<open>\<open>JSON.parse\<close> builds the value anew: every object and array of the text is allocated.\<close>

fun JSON_parse :: "json \<Rightarrow> heap \<Rightarrow> val \<times> heap"
  and parse_elements :: "json list \<Rightarrow> heap \<Rightarrow> val list \<times> heap"
  and parse_members :: "(string \<times> json) list \<Rightarrow> heap \<Rightarrow> (string \<times> val) list \<times> heap" where
  "JSON_parse JNull h = (VNull, h)"
| "JSON_parse (JBool b) h = (VBool b, h)"
| "JSON_parse (JNum n) h = (VNum n, h)"
| "JSON_parse (JStr s) h = (VStr s, h)"
| "JSON_parse (JArr js) h =
     (case parse_elements js h of
        (vs, h') \<Rightarrow> (VRef (length h'), h' @ [Obj True (zip (map dec [0..<length vs]) vs)]))"
| "JSON_parse (JObj ms) h =
     (case parse_members ms h of
        (ps, h') \<Rightarrow> (VRef (length h'), h' @ [Obj False ps]))"
| "parse_elements [] h = ([], h)"
| "parse_elements (j # js) h =
     (case JSON_parse j h of
        (v, h1) \<Rightarrow> (case parse_elements js h1 of (vs, h2) \<Rightarrow> (v # vs, h2)))"
| "parse_members [] h = ([], h)"
| "parse_members (m # ms) h =
     (case JSON_parse (snd m) h of
        (v, h1) \<Rightarrow> (case parse_members ms h1 of (ps, h2) \<Rightarrow> ((fst m, v) # ps, h2)))"

text \<open>
  \<open>{ ...v }\<close> allocates one object and gives it the own properties of \<open>v\<close>: the
  property values are copied as they are, references included.
\<close>

definition own_props :: "heap \<Rightarrow> val \<Rightarrow> (string \<times> val) list" where
  "own_props h v =
     (case v of
        VRef a \<Rightarrow> (if a < length h then props (h ! a) else [])
      | VStr s \<Rightarrow> zip (map dec [0..<length s]) (map (\<lambda>c. VStr [c]) s)
      | _ \<Rightarrow> [])"

definition spread_object :: "heap \<Rightarrow> val \<Rightarrow> val \<times> heap" where
  "spread_object h v = (VRef (length h), h @ [Obj False (own_props h v)])"

text \<open>
  \<open>getState\<close> on the heap, for a container whose field \<open>state\<close> holds the value
  \<open>held\<close> and whose \<open>deepStateComparison\<close> is \<open>deep\<close>.
\<close>

definition getState_on_heap :: "bool \<Rightarrow> val \<Rightarrow> heap \<Rightarrow> error + (val \<times> heap)" where
  "getState_on_heap deep held h =
     (if deep
      then (case JSON_stringify h held of
              Inl err \<Rightarrow> Inl err
            | Inr text \<Rightarrow> Inr (JSON_parse text h))
      else Inr (spread_object h held))"

text \<open>
  What a caller does with a value: reading along a path of property names
  (\<open>v.nested.value\<close>) and assigning to a property of an object (\<open>target[k] = x\<close>).
  \<open>None\<close> is a read through a missing property or an assignment to something that
  is not an object.
\<close>

fun lookup_path :: "heap \<Rightarrow> val \<Rightarrow> string list \<Rightarrow> val option" where
  "lookup_path h v [] = Some v"
| "lookup_path h (VRef a) (k # ks) =
     (if a < length h
      then (case map_of (props (h ! a)) k of
              None \<Rightarrow> None
            | Some v' \<Rightarrow> lookup_path h v' ks)
      else None)"
| "lookup_path h v (k # ks) = None"

definition assign :: "heap \<Rightarrow> val \<Rightarrow> string \<Rightarrow> val \<Rightarrow> heap option" where
  "assign h target k x =
     (case target of
        VRef a \<Rightarrow>
          (if a < length h
           then Some (h[a := Obj (is_array (h ! a)) (AList.update k x (props (h ! a)))])
           else None)
      | _ \<Rightarrow> None)"

text \<open>
  A value is new with respect to an address when it is no reference below that
  address; an object is new when all its property values are.
\<close>

definition new_val :: "nat \<Rightarrow> val \<Rightarrow> bool" where
  "new_val n v = (case v of VRef a \<Rightarrow> n \<le> a | _ \<Rightarrow> True)"

definition new_obj :: "nat \<Rightarrow> obj \<Rightarrow> bool" where
  "new_obj n ob = list_all (\<lambda>p. new_val n (snd p)) (props ob)"

text \<open>
  For the concrete run: the heap of a container that holds \<open>{nested: {value: 1}}\<close>
  at address 1, with the nested object at address 0, and the heaps after a deep and
  after a shallow \<open>getState\<close>.
\<close>

definition nested_heap :: heap where
  "nested_heap = [Obj False [(''value'', VNum 1)], Obj False [(''nested'', VRef 0)]]"

definition deep_copy_heap :: heap where
  "deep_copy_heap = nested_heap @ [Obj False [(''value'', VNum 1)], Obj False [(''nested'', VRef 2)]]"

definition shallow_copy_heap :: heap where
  "shallow_copy_heap = nested_heap @ [Obj False [(''nested'', VRef 0)]]"

section \<open>What each operation does to the container\<close>

lemma thrown_simps [simp]: "thrown h None = []" "thrown h (Some err) = [report h err]"
  by (simp_all add: thrown_def)

lemma middleware_events_simps [simp]:
  "middleware_events h prev nxt [] = []"
  "middleware_events h prev nxt (mw # mws) =
     MiddlewareCall (ref mw) prev nxt # thrown h (run mw (prev, nxt)) @ middleware_events h prev nxt mws"
  by (simp_all add: middleware_events_def)

lemma listener_events_simps [simp]:
  "listener_events h s [] = []"
  "listener_events h s (l # ls) = ListenerCall (ref l) s # thrown h (run l s) @ listener_events h s ls"
  by (simp_all add: listener_events_def)

lemma callback_events_simps [simp]:
  "callback_events h n v [] = []"
  "callback_events h n v (cb # cbs) = EventCall n (ref cb) v # thrown h (run cb v) @ callback_events h n v cbs"
  by (simp_all add: callback_events_def)

lemma handleError_eq: "handleError err m = m\<lparr>log := log m @ [report (errorHandler m) err]\<rparr>"
  by (simp add: handleError_def report_def split: option.splits)

lemma run_middlewares_eq:
  "run_middlewares mws prev nxt m = m\<lparr>log := log m @ middleware_events (errorHandler m) prev nxt mws\<rparr>"
proof (induction mws arbitrary: m)
  case Nil
  show ?case by simp
next
  case (Cons mw mws)
  show ?case
    by (cases "run mw (prev, nxt)")
       (simp_all add: Cons.IH handleError_eq Let_def)
qed

lemma call_listeners_eq:
  "call_listeners ls m = m\<lparr>log := log m @ listener_events (errorHandler m) (state m) ls\<rparr>"
proof (induction ls arbitrary: m)
  case Nil
  show ?case by simp
next
  case (Cons l ls)
  show ?case
    by (cases "run l (state m)")
       (simp_all add: Cons.IH handleError_eq Let_def
          getState_def copy_state_def JSON_roundtrip_def spread_def)
qed

lemma call_callbacks_eq:
  "call_callbacks n v cbs m = m\<lparr>log := log m @ callback_events (errorHandler m) n v cbs\<rparr>"
proof (induction cbs arbitrary: m)
  case Nil
  show ?case by simp
next
  case (Cons cb cbs)
  show ?case
    by (cases "run cb v")
       (simp_all add: Cons.IH handleError_eq Let_def)
qed

lemma notify_events_eq:
  "notify_events names m =
     m\<lparr>log := log m @ concat (map (key_events (errorHandler m) (eventListeners m) (state m)) names)\<rparr>"
proof (induction names arbitrary: m)
  case Nil
  show ?case by simp
next
  case (Cons n names)
  have step: "(case state m n of None \<Rightarrow> m
        | Some v \<Rightarrow> (case map_of (eventListeners m) n of None \<Rightarrow> m
                     | Some cbs \<Rightarrow> call_callbacks n v cbs m)) =
      m\<lparr>log := log m @ key_events (errorHandler m) (eventListeners m) (state m) n\<rparr>"
    by (simp add: key_events_def call_callbacks_eq split: option.splits)
  show ?case
    by (simp only: notify_events.simps Let_def step Cons.IH) simp
qed


lemma notifyListeners_eq:
  "notifyListeners m =
     m\<lparr>log := log m @ notify_log (errorHandler m) (listeners m) (eventListeners m) (state m)\<rparr>"
  by (simp add: notifyListeners_def call_listeners_eq notify_events_eq notify_log_def)


lemma persist_eq:
  "persistStateToLocalStorage m =
     m\<lparr>log := log m @ persist_log (errorHandler m) (localStorage m) (localStorageKey m) (state m)\<rparr>"
proof (cases "localStorage m")
  case None
  then show ?thesis by (simp add: persistStateToLocalStorage_def persist_log_def)
next
  case (Some st)
  then show ?thesis
    by (cases "setItem st (localStorageKey m) (state m)")
       (simp_all add: persistStateToLocalStorage_def persist_log_def handleError_eq)
qed

lemma applyMiddlewares_eq:
  "applyMiddlewares prev nxt m =
     m\<lparr>log := log m @ middleware_events (errorHandler m) prev nxt (enabledMiddlewares m)\<rparr>"
  by (simp add: applyMiddlewares_def run_middlewares_eq)


lemma applyStateUpdate_eq:
  "applyStateUpdate s a m =
     m\<lparr>undoStack := (if a then undoStack m @ [state m] else undoStack m),
       redoStack := (if a then [] else redoStack m),
       prevState := state m,
       state := s,
       log := log m @ commit_log m (prevState m) s\<rparr>"
  by (cases a)
     (simp_all add: applyStateUpdate_def applyMiddlewares_eq notifyListeners_eq persist_eq Let_def
      copy_state_def JSON_roundtrip_def spread_def commit_log_def)


lemma setState_now: "setState s a False m = applyStateUpdate s a m"
  by (simp add: setState_def copy_state_def JSON_roundtrip_def spread_def)

lemma mergeState_eq:
  "mergeState p m =
     m\<lparr>prevState := state m, state := state m ++ p,
       log := log m @ commit_log m (prevState m) (state m ++ p)\<rparr>"
  by (simp add: mergeState_def applyMiddlewares_eq notifyListeners_eq persist_eq Let_def
      copy_state_def JSON_roundtrip_def spread_def commit_log_def)

lemma patchState_eq: "patchState p m = mergeState p m"
  by (simp add: patchState_def mergeState_def)

lemma undo_eq:
  "undoStack m \<noteq> [] \<Longrightarrow>
   undo m =
     m\<lparr>undoStack := butlast (undoStack m), redoStack := redoStack m @ [state m],
       state := last (undoStack m),
       log := log m @ notify_log (errorHandler m) (listeners m) (eventListeners m) (last (undoStack m))
                @ persist_log (errorHandler m) (localStorage m) (localStorageKey m) (last (undoStack m))\<rparr>"
  by (simp add: undo_def notifyListeners_eq persist_eq Let_def copy_state_def JSON_roundtrip_def
      spread_def)

lemma redo_eq:
  "redoStack m \<noteq> [] \<Longrightarrow>
   redo m =
     m\<lparr>redoStack := butlast (redoStack m), undoStack := undoStack m @ [state m],
       state := last (redoStack m),
       log := log m @ notify_log (errorHandler m) (listeners m) (eventListeners m) (last (redoStack m))
                @ persist_log (errorHandler m) (localStorage m) (localStorageKey m) (last (redoStack m))\<rparr>"
  by (simp add: redo_def notifyListeners_eq persist_eq Let_def copy_state_def JSON_roundtrip_def
      spread_def)

lemma constructor_None:
  "constructor s None =
     \<lparr>state = s, initialState = s, listeners = [], middlewares = [],
      eventListeners = [], undoStack = [], redoStack = [], prevState = s,
      debounceTimeout = None, debounceDelay = 200, batchUpdatePending = False,
      batchUpdateQueue = [], deepStateComparison = False,
      localStorageKey = ''1cbycStateManagerState'', errorHandler = None,
      log = [], clock = 0, localStorage = None\<rparr>"
  by (simp add: constructor_def initializeStateFromLocalStorage_def spread_def)

lemma endBatchUpdate_eq:
  "endBatchUpdate m =
     (if batchUpdateQueue m = [] then m\<lparr>batchUpdatePending := False\<rparr>
      else applyStateUpdate (Object_assign Map.empty (batchUpdateQueue m)) True
             (m\<lparr>batchUpdatePending := False, batchUpdateQueue := []\<rparr>))"
  by (simp add: endBatchUpdate_def Let_def setState_now)

lemma is_error_report_report [simp]: "is_error_report (report h err)"
  by (cases h) (simp_all add: report_def)

lemma not_call_report [simp]:
  "\<not> is_middleware_call (report h err)" "\<not> is_listener_call (report h err)"
  by (cases h; simp add: report_def)+

lemma filter_thrown [simp]:
  "filter is_middleware_call (thrown h oc) = []"
  "filter is_listener_call (thrown h oc) = []"
  "filter is_error_report (thrown h oc) = thrown h oc"
  by (cases oc; simp)+

lemma middleware_calls:
  "filter is_middleware_call (middleware_events h prev nxt mws) =
     map (\<lambda>mw. MiddlewareCall (ref mw) prev nxt) mws"
  by (induction mws) simp_all

lemma middleware_reports:
  "filter is_error_report (middleware_events h prev nxt mws) =
     concat (map (\<lambda>mw. thrown h (run mw (prev, nxt))) mws)"
  by (induction mws) simp_all

lemma middleware_listener_calls:
  "filter is_listener_call (middleware_events h prev nxt mws) = []"
  by (induction mws) simp_all

lemma listener_calls:
  "filter is_listener_call (listener_events h s ls) = map (\<lambda>l. ListenerCall (ref l) s) ls"
  by (induction ls) simp_all

lemma callback_listener_calls:
  "filter is_listener_call (callback_events h n v cbs) = []"
  by (induction cbs) simp_all

lemma key_listener_calls:
  "filter is_listener_call (key_events h els s n) = []"
  by (simp add: key_events_def callback_listener_calls split: option.splits)

lemma notify_listener_calls:
  "filter is_listener_call (notify_log h ls els s) = map (\<lambda>l. ListenerCall (ref l) s) ls"
proof -
  have "filter is_listener_call (concat (map (key_events h els s) ns)) = []" for ns
    by (induction ns) (simp_all add: key_listener_calls)
  then show ?thesis
    by (simp add: notify_log_def listener_calls)
qed

lemma persist_listener_calls:
  "filter is_listener_call (persist_log h st key s) = []"
  by (simp add: persist_log_def split: option.splits)

lemma commit_listener_calls:
  "filter is_listener_call (commit_log m prev s) = map (\<lambda>l. ListenerCall (ref l) s) (listeners m)"
  by (simp add: commit_log_def middleware_listener_calls notify_listener_calls
      persist_listener_calls)

lemma Object_keys_Nil [simp]: "Object_keys [] = []"
  by (simp add: Object_keys_def)

lemma Object_assign_snoc: "Object_assign t (ps @ [p]) = Object_assign t ps ++ p"
  by (simp add: Object_assign_def)

lemma Object_assign_lookup:
  "Object_assign t ps k =
     (case find (\<lambda>p. p k \<noteq> None) (rev ps) of None \<Rightarrow> t k | Some p \<Rightarrow> p k)"
proof (induction ps rule: rev_induct)
  case Nil
  show ?case by (simp add: Object_assign_def)
next
  case (snoc p ps)
  show ?case
    by (cases "p k") (simp_all add: Object_assign_snoc snoc.IH map_add_def)
qed

lemma queue_all:
  "batchUpdatePending m \<Longrightarrow>
   foldl (\<lambda>m p. queueBatchUpdate p m) m ps = m\<lparr>batchUpdateQueue := batchUpdateQueue m @ ps\<rparr>"
  by (induction ps arbitrary: m) (simp_all add: queueBatchUpdate_def)

lemma commit_log_batch [simp]:
  "commit_log (m\<lparr>batchUpdatePending := b, batchUpdateQueue := q\<rparr>) = commit_log m"
  by (simp add: commit_log_def enabledMiddlewares_def fun_eq_iff)

lemma commit_log_timer [simp]:
  "commit_log (m\<lparr>clock := c, debounceTimeout := t\<rparr>) = commit_log m"
  by (simp add: commit_log_def enabledMiddlewares_def fun_eq_iff)

lemma setState_debounced:
  "setState s a True m = m\<lparr>debounceTimeout := Some (clock m + debounceDelay m, s, a)\<rparr>"
  by (simp add: setState_def copy_state_def JSON_roundtrip_def spread_def)

lemma advance_pending:
  "debounceTimeout m = Some (due, s, a) \<Longrightarrow> clock m + dt < due \<Longrightarrow>
   advance dt m = m\<lparr>clock := clock m + dt\<rparr>"
  by (simp add: advance_def)

lemma advance_due:
  "debounceTimeout m = Some (due, s, a) \<Longrightarrow> due \<le> clock m + dt \<Longrightarrow>
   advance dt m = applyStateUpdate s a (m\<lparr>clock := clock m + dt, debounceTimeout := None\<rparr>)"
  by (simp add: advance_def)

lemma burst_pending:
  "debounceTimeout m = Some (clock m + debounceDelay m, s, a) \<Longrightarrow>
   \<forall>c \<in> set calls. fst c < debounceDelay m \<Longrightarrow>
   burst calls m =
     m\<lparr>clock := clock m + sum_list (map fst calls),
       debounceTimeout := Some (clock m + sum_list (map fst calls) + debounceDelay m,
                                last ((s, a) # map snd calls))\<rparr>"
proof (induction calls arbitrary: m s a)
  case Nil
  then show ?case by simp
next
  case (Cons c calls)
  obtain dt s' a' where c: "c = (dt, s', a')" by (cases c) auto
  from Cons.prems c have dt: "dt < debounceDelay m" by simp
  let ?m = "setState s' a' True (advance dt m)"
  have adv: "advance dt m = m\<lparr>clock := clock m + dt\<rparr>"
    using Cons.prems(1) dt by (intro advance_pending [where due = "clock m + debounceDelay m"]) auto
  have m': "?m = m\<lparr>clock := clock m + dt,
                     debounceTimeout := Some (clock m + dt + debounceDelay m, s', a')\<rparr>"
    by (simp add: adv setState_debounced)
  have "burst calls ?m =
     ?m\<lparr>clock := clock ?m + sum_list (map fst calls),
       debounceTimeout := Some (clock ?m + sum_list (map fst calls) + debounceDelay ?m,
                                last ((s', a') # map snd calls))\<rparr>"
    using Cons.prems(2) by (intro Cons.IH) (simp_all add: m')
  then show ?case
    by (simp add: c m' add.assoc)
qed

lemma constructor_delay: "debounceDelay (constructor initial ls) = 200"
proof (cases ls)
  case None
  then show ?thesis by (simp add: constructor_None)
next
  case (Some st)
  then show ?thesis
    by (cases "getItem st ''1cbycStateManagerState''")
       (simp_all add: constructor_def initializeStateFromLocalStorage_def handleError_eq)
qed

lemma mergeState_log:
  "log (mergeState p m) =
     log (applyMiddlewares (prevState m) (state m ++ p) m) @
     notify_log (errorHandler m) (listeners m) (eventListeners m) (state m ++ p) @
     persist_log (errorHandler m) (localStorage m) (localStorageKey m) (state m ++ p)"
  by (simp add: mergeState_eq applyMiddlewares_eq commit_log_def)

section \<open>Fresh objects\<close>

text \<open>
  \<open>JSON.parse\<close> only adds objects to the heap, and what it returns refers to the added
  objects only; so does everything reached from there. What \<open>JSON.stringify\<close> reads
  from a value stays the same when the objects it reaches are untouched.
\<close>

lemma new_val_mono: "n \<le> n' \<Longrightarrow> new_val n' v \<Longrightarrow> new_val n v"
  by (cases v) (simp_all add: new_val_def)

lemma new_obj_mono: "n \<le> n' \<Longrightarrow> new_obj n' ob \<Longrightarrow> new_obj n ob"
  by (auto simp: new_obj_def list_all_iff intro: new_val_mono)

lemma new_vals_zip:
  "list_all (new_val n) vs \<Longrightarrow> list_all (\<lambda>p. new_val n (snd p)) (zip ks vs)"
  by (auto simp: list_all_iff dest: set_zip_rightD)

lemma parse_new:
  "JSON_parse j h = (v, h') \<Longrightarrow>
     \<exists>new. h' = h @ new \<and> list_all (new_obj (length h)) new \<and> new_val (length h) v"
  "parse_elements js h = (vs, h') \<Longrightarrow>
     \<exists>new. h' = h @ new \<and> list_all (new_obj (length h)) new \<and> list_all (new_val (length h)) vs"
  "parse_members ms h = (ps, h') \<Longrightarrow>
     \<exists>new. h' = h @ new \<and> list_all (new_obj (length h)) new \<and>
           list_all (\<lambda>p. new_val (length h) (snd p)) ps"
proof (induction j h and js h and ms h arbitrary: v h' and vs h' and ps h'
       rule: JSON_parse_parse_elements_parse_members.induct)
  case (1 h)
  then show ?case by (auto simp: new_val_def)
next
  case (2 b h)
  then show ?case by (auto simp: new_val_def)
next
  case (3 n h)
  then show ?case by (auto simp: new_val_def)
next
  case (4 s h)
  then show ?case by (auto simp: new_val_def)
next
  case (5 js h)
  obtain vs h1 where p: "parse_elements js h = (vs, h1)" by (cases "parse_elements js h")
  from "5.IH" [OF p] obtain new where
    n: "h1 = h @ new" "list_all (new_obj (length h)) new" "list_all (new_val (length h)) vs"
    by blast
  from "5.prems" p have v: "v = VRef (length h1)"
    and h': "h' = h1 @ [Obj True (zip (map dec [0..<length vs]) vs)]"
    by simp_all
  have "h' = h @ (new @ [Obj True (zip (map dec [0..<length vs]) vs)])"
    by (simp add: h' n(1))
  moreover have "list_all (new_obj (length h)) (new @ [Obj True (zip (map dec [0..<length vs]) vs)])"
    using n(2) n(3) by (simp add: new_obj_def new_vals_zip)
  moreover have "new_val (length h) v"
    by (simp add: v n(1) new_val_def)
  ultimately show ?case by blast
next
  case (6 ms h)
  obtain ps h1 where p: "parse_members ms h = (ps, h1)" by (cases "parse_members ms h")
  from "6.IH" [OF p] obtain new where
    n: "h1 = h @ new" "list_all (new_obj (length h)) new"
       "list_all (\<lambda>p. new_val (length h) (snd p)) ps"
    by blast
  from "6.prems" p have v: "v = VRef (length h1)" and h': "h' = h1 @ [Obj False ps]"
    by simp_all
  have "h' = h @ (new @ [Obj False ps])"
    by (simp add: h' n(1))
  moreover have "list_all (new_obj (length h)) (new @ [Obj False ps])"
    using n(2) n(3) by (simp add: new_obj_def)
  moreover have "new_val (length h) v"
    by (simp add: v n(1) new_val_def)
  ultimately show ?case by blast
next
  case (7 h)
  then show ?case by simp
next
  case (8 j js h)
  obtain v1 h1 where p1: "JSON_parse j h = (v1, h1)" by (cases "JSON_parse j h")
  obtain vs2 h2 where p2: "parse_elements js h1 = (vs2, h2)" by (cases "parse_elements js h1")
  from "8.IH"(1) [OF p1] obtain new1 where
    n1: "h1 = h @ new1" "list_all (new_obj (length h)) new1" "new_val (length h) v1"
    by blast
  from "8.IH"(2) [OF p1 [symmetric] p2] obtain new2 where
    n2: "h2 = h1 @ new2" "list_all (new_obj (length h1)) new2" "list_all (new_val (length h1)) vs2"
    by blast
  have le: "length h \<le> length h1" by (simp add: n1(1))
  from "8.prems" p1 p2 have r: "vs = v1 # vs2" "h' = h2" by simp_all
  have "h' = h @ (new1 @ new2)" by (simp add: r n2(1) n1(1))
  moreover have "list_all (new_obj (length h)) (new1 @ new2)"
    using n1(2) n2(2) le by (auto simp: list_all_iff intro: new_obj_mono)
  moreover have "list_all (new_val (length h)) vs"
    using n1(3) n2(3) le by (auto simp: r list_all_iff intro: new_val_mono)
  ultimately show ?case by blast
next
  case (9 h)
  then show ?case by simp
next
  case (10 m ms h)
  obtain v1 h1 where p1: "JSON_parse (snd m) h = (v1, h1)" by (cases "JSON_parse (snd m) h")
  obtain ps2 h2 where p2: "parse_members ms h1 = (ps2, h2)" by (cases "parse_members ms h1")
  from "10.IH"(1) [OF p1] obtain new1 where
    n1: "h1 = h @ new1" "list_all (new_obj (length h)) new1" "new_val (length h) v1"
    by blast
  from "10.IH"(2) [OF p1 [symmetric] p2] obtain new2 where
    n2: "h2 = h1 @ new2" "list_all (new_obj (length h1)) new2"
        "list_all (\<lambda>p. new_val (length h1) (snd p)) ps2"
    by blast
  have le: "length h \<le> length h1" by (simp add: n1(1))
  from "10.prems" p1 p2 have r: "ps = (fst m, v1) # ps2" "h' = h2" by simp_all
  have "h' = h @ (new1 @ new2)" by (simp add: r n2(1) n1(1))
  moreover have "list_all (new_obj (length h)) (new1 @ new2)"
    using n1(2) n2(2) le by (auto simp: list_all_iff intro: new_obj_mono)
  moreover have "list_all (\<lambda>p. new_val (length h) (snd p)) ps"
    using n1(3) n2(3) le by (auto simp: r list_all_iff intro: new_val_mono)
  ultimately show ?case by blast
qed


lemma lookup_new:
  "list_all (new_obj (length h)) new \<Longrightarrow> new_val (length h) v \<Longrightarrow>
   lookup_path (h @ new) v path = Some t \<Longrightarrow> new_val (length h) t"
proof (induction path arbitrary: v)
  case Nil
  then show ?case by simp
next
  case (Cons k ks)
  from Cons.prems(3) obtain a where v: "v = VRef a"
    by (cases v) simp_all
  from Cons.prems(3) v have a: "a < length (h @ new)"
    by (simp split: if_splits)
  from Cons.prems(2) v have ge: "length h \<le> a"
    by (simp add: new_val_def)
  from Cons.prems(3) v a obtain v' where
    v': "map_of (props ((h @ new) ! a)) k = Some v'" and l: "lookup_path (h @ new) v' ks = Some t"
    by (auto split: option.splits)
  have "(h @ new) ! a \<in> set new"
    using a ge by (simp add: nth_append)
  then have "new_obj (length h) ((h @ new) ! a)"
    using Cons.prems(1) by (simp add: list_all_iff)
  moreover have "(k, v') \<in> set (props ((h @ new) ! a))"
    using v' by (rule map_of_SomeD)
  ultimately have "new_val (length h) v'"
    by (auto simp: new_obj_def list_all_iff)
  then show ?case
    using Cons.IH [OF Cons.prems(1) _ l] by simp
qed

lemma those_map_cong:
  "those (map f xs) = Some ys \<Longrightarrow> (\<And>x y. x \<in> set xs \<Longrightarrow> f x = Some y \<Longrightarrow> g x = Some y) \<Longrightarrow>
   those (map g xs) = Some ys"
proof (induction xs arbitrary: ys)
  case Nil
  then show ?case by simp
next
  case (Cons x xs)
  from Cons.prems(1) obtain y ys' where
    y: "f x = Some y" and ys': "those (map f xs) = Some ys'" and ys: "ys = y # ys'"
    by (auto split: option.splits)
  have "g x = Some y" using Cons.prems(2) y by simp
  moreover have "those (map g xs) = Some ys'"
    using ys' Cons.prems(2) by (intro Cons.IH) auto
  ultimately show ?case by (simp add: ys)
qed

lemma read_json_stable:
  "read_json n h v = Some j \<Longrightarrow> n \<le> n' \<Longrightarrow> length h \<le> length h2 \<Longrightarrow>
   (\<And>a. a < length h \<Longrightarrow> h2 ! a = h ! a) \<Longrightarrow> read_json n' h2 v = Some j"
proof (induction n arbitrary: v j n')
  case 0
  then show ?case by (cases v) simp_all
next
  case (Suc n)
  show ?case
  proof (cases v)
    case (VRef a)
    from Suc.prems(2) obtain m where n': "n' = Suc m" and m: "n \<le> m"
      by (cases n') simp_all
    from Suc.prems(1) VRef have a: "a < length h"
      by (simp split: if_splits)
    from Suc.prems(1) VRef a obtain fs where
      fs: "those (map (\<lambda>p. map_option (Pair (fst p)) (read_json n h (snd p))) (props (h ! a))) = Some fs"
      and j: "j = (if is_array (h ! a) then JArr (map snd fs) else JObj fs)"
      by (auto split: option.splits)
    have "those (map (\<lambda>p. map_option (Pair (fst p)) (read_json m h2 (snd p))) (props (h ! a))) = Some fs"
    proof (rule those_map_cong [OF fs])
      fix p y
      assume "map_option (Pair (fst p)) (read_json n h (snd p)) = Some y"
      then obtain j' where "read_json n h (snd p) = Some j'" and y: "y = (fst p, j')"
        by auto
      then have "read_json m h2 (snd p) = Some j'"
        using m Suc.prems(3) Suc.prems(4) by (intro Suc.IH) auto
      then show "map_option (Pair (fst p)) (read_json m h2 (snd p)) = Some y"
        by (simp add: y)
    qed
    then show ?thesis
      using VRef a Suc.prems(3) Suc.prems(4) [OF a] by (simp add: n' j)
  qed (use Suc.prems in simp_all)
qed


lemma assign_new:
  "new_val n target \<Longrightarrow> assign h' target k x = Some h'' \<Longrightarrow>
   length h'' = length h' \<and> (\<forall>a < n. h'' ! a = h' ! a)"
  by (cases target) (auto simp: assign_def new_val_def split: if_splits)

section \<open>Properties of the state container\<close>

subsection \<open>History\<close>

text \<open>
  C4: committing \<open>s1\<close> with \<open>setState\<close> (history recorded) and then calling
  \<open>undo\<close> makes the state held before the commit current again; \<open>redo\<close> after
  that \<open>undo\<close> makes \<open>s1\<close> current again, with both stacks as they were after
  the commit. \<open>undo\<close> on an empty undo stack and \<open>redo\<close> on an empty redo stack
  change nothing.
\<close>

theorem undo_redo_round_trip:
  "state (undo (setState s1 True False m)) = state m \<and>
   getState (undo (setState s1 True False m)) = getState m \<and>
   state (redo (undo (setState s1 True False m))) = s1 \<and>
   getState (redo (undo (setState s1 True False m))) = s1 \<and>
   undoStack (redo (undo (setState s1 True False m))) = undoStack (setState s1 True False m) \<and>
   redoStack (redo (undo (setState s1 True False m))) = redoStack (setState s1 True False m) \<and>
   (undoStack m = [] \<longrightarrow> undo m = m) \<and>
   (redoStack m = [] \<longrightarrow> redo m = m)"
  by (simp add: setState_now applyStateUpdate_eq undo_eq redo_eq getState_def copy_state_def
      JSON_roundtrip_def spread_def)
     (simp add: undo_def redo_def)


text \<open>The round trip from the empty state of a new container.\<close>

theorem undo_redo_round_trip_witness:
  "undoStack (constructor Map.empty None) = [] \<and>
   redoStack (constructor Map.empty None) = [] \<and>
   undo (constructor Map.empty None) = constructor Map.empty None \<and>
   redo (constructor Map.empty None) = constructor Map.empty None \<and>
   state (undo (setState [''count'' \<mapsto> JNum 1] True False (constructor Map.empty None))) = Map.empty \<and>
   state (redo (undo (setState [''count'' \<mapsto> JNum 1] True False (constructor Map.empty None))))
     = [''count'' \<mapsto> JNum 1]"
  using undo_redo_round_trip [of "[''count'' \<mapsto> JNum 1]" "constructor Map.empty None"]
  by (simp add: constructor_None)

text \<open>
  C2, as stated, fails: \<open>mergeState\<close> (and \<open>patchState\<close>) commit without touching
  the history stacks. After two commits and one \<open>undo\<close> the redo stack holds one
  snapshot, and it still does after a \<open>mergeState\<close>.
\<close>

theorem merge_keeps_redo_counterexample:
  "getRedoStackSize
     (mergeState [''count'' \<mapsto> JNum 4]
        (undo (setState [''count'' \<mapsto> JNum 3] True False
           (setState [''count'' \<mapsto> JNum 2] True False (constructor Map.empty None))))) = 1"
  by (simp add: getRedoStackSize_def mergeState_eq undo_eq setState_now applyStateUpdate_eq
      constructor_None)

text \<open>
  C2, amended: a commit that records history, that is \<open>setState\<close> with
  \<open>addToUndoStack\<close> set and the flush of a non-empty batch by
  \<open>endBatchUpdate\<close>, leaves the redo stack empty. \<open>mergeState\<close>,
  \<open>patchState\<close> and \<open>setState\<close> without history recording leave both history
  stacks as they were.
\<close>

theorem redo_cleared_by_history_commits:
  "redoStack (setState s True False m) = [] \<and>
   (batchUpdateQueue m \<noteq> [] \<longrightarrow> redoStack (endBatchUpdate m) = []) \<and>
   redoStack (mergeState p m) = redoStack m \<and>
   undoStack (mergeState p m) = undoStack m \<and>
   redoStack (patchState p m) = redoStack m \<and>
   undoStack (patchState p m) = undoStack m \<and>
   redoStack (setState s False False m) = redoStack m \<and>
   undoStack (setState s False False m) = undoStack m"
  by (simp add: setState_now applyStateUpdate_eq endBatchUpdate_eq patchState_eq mergeState_eq)

text \<open>
  After two commits and an \<open>undo\<close> the redo stack holds the undone state; a further
  \<open>setState\<close> or batch empties it, a \<open>mergeState\<close> does not.
\<close>

theorem redo_cleared_by_history_commits_witness:
  "redoStack (undo (setState [''count'' \<mapsto> JNum 3] True False
      (setState [''count'' \<mapsto> JNum 2] True False (constructor Map.empty None)))) =
     [[''count'' \<mapsto> JNum 3]] \<and>
   redoStack (setState [''count'' \<mapsto> JNum 4] True False
     (undo (setState [''count'' \<mapsto> JNum 3] True False
       (setState [''count'' \<mapsto> JNum 2] True False (constructor Map.empty None))))) = [] \<and>
   batchUpdateQueue (queueBatchUpdate [''count'' \<mapsto> JNum 4] (startBatchUpdate
     (undo (setState [''count'' \<mapsto> JNum 3] True False
       (setState [''count'' \<mapsto> JNum 2] True False (constructor Map.empty None)))))) =
     [[''count'' \<mapsto> JNum 4]] \<and>
   redoStack (endBatchUpdate (queueBatchUpdate [''count'' \<mapsto> JNum 4] (startBatchUpdate
     (undo (setState [''count'' \<mapsto> JNum 3] True False
       (setState [''count'' \<mapsto> JNum 2] True False (constructor Map.empty None))))))) = [] \<and>
   redoStack (mergeState [''count'' \<mapsto> JNum 4]
     (undo (setState [''count'' \<mapsto> JNum 3] True False
       (setState [''count'' \<mapsto> JNum 2] True False (constructor Map.empty None))))) =
     [[''count'' \<mapsto> JNum 3]]"
  using redo_cleared_by_history_commits
    [of "[''count'' \<mapsto> JNum 4]"
        "undo (setState [''count'' \<mapsto> JNum 3] True False
           (setState [''count'' \<mapsto> JNum 2] True False (constructor Map.empty None)))"
        "[''count'' \<mapsto> JNum 4]"]
    redo_cleared_by_history_commits
    [of "[''count'' \<mapsto> JNum 4]"
        "queueBatchUpdate [''count'' \<mapsto> JNum 4] (startBatchUpdate
           (undo (setState [''count'' \<mapsto> JNum 3] True False
             (setState [''count'' \<mapsto> JNum 2] True False (constructor Map.empty None)))))"
        "[''count'' \<mapsto> JNum 4]"]
  by (simp add: queueBatchUpdate_def startBatchUpdate_def undo_eq setState_now
      applyStateUpdate_eq constructor_None)

subsection \<open>Middleware failures\<close>

text \<open>
  C3: the middleware phase of a commit calls every enabled middleware once, in
  registration order, with the previous and the candidate state, whether or not an
  earlier one threw or rejected; the call of a middleware that throws is followed by
  exactly one report of its error, to the error handler when one is registered, and
  there are no other reports in that phase. After it the commit completes, for
  \<open>setState\<close> as for \<open>mergeState\<close>: the candidate becomes the state and the
  notification runs, in which every listener is called once with the new state.
\<close>

theorem failing_middleware_does_not_block:
  "log (applyMiddlewares prev s m) =
     log m @ concat (map (\<lambda>mw. MiddlewareCall (ref mw) prev s #
                              (case run mw (prev, s) of None \<Rightarrow> []
                               | Some err \<Rightarrow> [report (errorHandler m) err]))
                      (enabledMiddlewares m)) \<and>
   filter is_middleware_call (log (applyMiddlewares prev s m)) =
     filter is_middleware_call (log m) @
     map (\<lambda>mw. MiddlewareCall (ref mw) prev s) (enabledMiddlewares m) \<and>
   filter is_error_report (log (applyMiddlewares prev s m)) =
     filter is_error_report (log m) @
     concat (map (\<lambda>mw. case run mw (prev, s) of None \<Rightarrow> []
                        | Some err \<Rightarrow> [report (errorHandler m) err]) (enabledMiddlewares m)) \<and>
   state (setState s a False m) = s \<and>
   log (setState s a False m) =
     log (applyMiddlewares (prevState m) s m) @
     notify_log (errorHandler m) (listeners m) (eventListeners m) s @
     persist_log (errorHandler m) (localStorage m) (localStorageKey m) s \<and>
   filter is_listener_call (log (setState s a False m)) =
     filter is_listener_call (log m) @ map (\<lambda>l. ListenerCall (ref l) s) (listeners m) \<and>
   state (mergeState p m) = state m ++ p \<and>
   log (mergeState p m) =
     log (applyMiddlewares (prevState m) (state m ++ p) m) @
     notify_log (errorHandler m) (listeners m) (eventListeners m) (state m ++ p) @
     persist_log (errorHandler m) (localStorage m) (localStorageKey m) (state m ++ p)"
proof -
  have t: "(\<lambda>mw. MiddlewareCall (ref mw) prev s #
              (case run mw (prev, s) of None \<Rightarrow> [] | Some err \<Rightarrow> [report (errorHandler m) err])) =
           (\<lambda>mw. MiddlewareCall (ref mw) prev s # thrown (errorHandler m) (run mw (prev, s)))"
    by (simp add: thrown_def)
  have u: "(\<lambda>mw. case run mw (prev, s) of None \<Rightarrow> [] | Some err \<Rightarrow> [report (errorHandler m) err]) =
           (\<lambda>mw. thrown (errorHandler m) (run mw (prev, s)))"
    by (simp add: thrown_def)
  have c1: "log (applyMiddlewares prev s m) =
     log m @ concat (map (\<lambda>mw. MiddlewareCall (ref mw) prev s #
                              (case run mw (prev, s) of None \<Rightarrow> []
                               | Some err \<Rightarrow> [report (errorHandler m) err]))
                      (enabledMiddlewares m))"
    by (simp only: t) (simp add: applyMiddlewares_eq middleware_events_def)
  have c2: "filter is_middleware_call (log (applyMiddlewares prev s m)) =
     filter is_middleware_call (log m) @
     map (\<lambda>mw. MiddlewareCall (ref mw) prev s) (enabledMiddlewares m)"
    by (simp add: applyMiddlewares_eq middleware_calls)
  have c3: "filter is_error_report (log (applyMiddlewares prev s m)) =
     filter is_error_report (log m) @
     concat (map (\<lambda>mw. case run mw (prev, s) of None \<Rightarrow> []
                        | Some err \<Rightarrow> [report (errorHandler m) err]) (enabledMiddlewares m))"
    by (simp only: u) (simp add: applyMiddlewares_eq middleware_reports)
  have c4: "state (setState s a False m) = s"
    by (simp add: setState_now applyStateUpdate_eq)
  have c5: "log (setState s a False m) =
     log (applyMiddlewares (prevState m) s m) @
     notify_log (errorHandler m) (listeners m) (eventListeners m) s @
     persist_log (errorHandler m) (localStorage m) (localStorageKey m) s"
    by (simp add: setState_now applyStateUpdate_eq applyMiddlewares_eq commit_log_def)
  have c6: "filter is_listener_call (log (setState s a False m)) =
     filter is_listener_call (log m) @ map (\<lambda>l. ListenerCall (ref l) s) (listeners m)"
    by (simp add: setState_now applyStateUpdate_eq commit_listener_calls)
  have c7: "state (mergeState p m) = state m ++ p"
    by (simp add: mergeState_eq)
  show ?thesis
    using c1 c2 c3 c4 c5 c6 c7 mergeState_log [of p m] by (intro conjI)
qed

text \<open>
  A commit with a throwing middleware registered before a second one: the handler gets
  the error once, the second middleware runs, the listener is notified.
\<close>

theorem failing_middleware_does_not_block_witness:
  "log (setState [''count'' \<mapsto> JNum 1] True False store_with_failing_middleware) =
     [MiddlewareCall 1 Map.empty [''count'' \<mapsto> JNum 1],
      ErrorHandlerCall 9 (Error ''Middleware error''),
      MiddlewareCall 2 Map.empty [''count'' \<mapsto> JNum 1],
      ListenerCall 3 [''count'' \<mapsto> JNum 1]] \<and>
   state (setState [''count'' \<mapsto> JNum 1] True False store_with_failing_middleware) =
     [''count'' \<mapsto> JNum 1]"
  using failing_middleware_does_not_block
    [of Map.empty "[''count'' \<mapsto> JNum 1]" store_with_failing_middleware True]
  by (simp add: store_with_failing_middleware_def subscribe_def applyMiddleware_def
      setErrorHandler_def constructor_None enabledMiddlewares_def throwing_mw_def quiet_mw_def
      quiet_listener_def notify_log_def persist_log_def report_def)

subsection \<open>Batches\<close>

text \<open>
  C5: after \<open>startBatchUpdate\<close> and the queueing of \<open>ps\<close>, \<open>endBatchUpdate\<close>
  does nothing but close the batch when \<open>ps\<close> is empty (no commit, no notification),
  and otherwise performs the one commit of the queued objects merged from left to
  right, in which every listener is called exactly once, with the merged state. In the
  merged object a key has the value of the last queued object that has the key. From a
  new container, queueing \<open>{count: 1}\<close> and \<open>{name: 'test'}\<close> gives the state
  \<open>{count: 1, name: 'test'}\<close>.
\<close>

theorem batch_commits_once:
  "endBatchUpdate (foldl (\<lambda>m p. queueBatchUpdate p m) (startBatchUpdate m) ps) =
     (if ps = [] then m\<lparr>batchUpdatePending := False, batchUpdateQueue := []\<rparr>
      else applyStateUpdate (foldl (++) Map.empty ps) True
             (m\<lparr>batchUpdatePending := False, batchUpdateQueue := []\<rparr>)) \<and>
   (ps = [] \<longrightarrow>
      state (endBatchUpdate (foldl (\<lambda>m p. queueBatchUpdate p m) (startBatchUpdate m) ps)) = state m \<and>
      log (endBatchUpdate (foldl (\<lambda>m p. queueBatchUpdate p m) (startBatchUpdate m) ps)) = log m) \<and>
   (ps \<noteq> [] \<longrightarrow>
      state (endBatchUpdate (foldl (\<lambda>m p. queueBatchUpdate p m) (startBatchUpdate m) ps)) =
        foldl (++) Map.empty ps \<and>
      log (endBatchUpdate (foldl (\<lambda>m p. queueBatchUpdate p m) (startBatchUpdate m) ps)) =
        log m @ commit_log m (prevState m) (foldl (++) Map.empty ps) \<and>
      filter is_listener_call (commit_log m (prevState m) (foldl (++) Map.empty ps)) =
        map (\<lambda>l. ListenerCall (ref l) (foldl (++) Map.empty ps)) (listeners m)) \<and>
   foldl (++) Map.empty ps k =
     (case find (\<lambda>p. p k \<noteq> None) (rev ps) of None \<Rightarrow> None | Some p \<Rightarrow> p k) \<and>
   state (endBatchUpdate (queueBatchUpdate [''name'' \<mapsto> JStr ''test'']
            (queueBatchUpdate [''count'' \<mapsto> JNum 1] (startBatchUpdate (constructor Map.empty ls))))) =
     [''count'' \<mapsto> JNum 1, ''name'' \<mapsto> JStr ''test'']"
proof -
  let ?q = "foldl (\<lambda>m p. queueBatchUpdate p m) (startBatchUpdate m) ps"
  have q: "?q = m\<lparr>batchUpdatePending := True, batchUpdateQueue := ps\<rparr>"
    by (simp add: queue_all startBatchUpdate_def)
  have e: "endBatchUpdate ?q =
     (if ps = [] then m\<lparr>batchUpdatePending := False, batchUpdateQueue := []\<rparr>
      else applyStateUpdate (foldl (++) Map.empty ps) True
             (m\<lparr>batchUpdatePending := False, batchUpdateQueue := []\<rparr>))"
    by (simp add: q endBatchUpdate_eq Object_assign_def)
  have l: "foldl (++) Map.empty ps k =
     (case find (\<lambda>p. p k \<noteq> None) (rev ps) of None \<Rightarrow> None | Some p \<Rightarrow> p k)"
    using Object_assign_lookup [of Map.empty ps k] by (simp add: Object_assign_def)
  have x: "state (endBatchUpdate (queueBatchUpdate [''name'' \<mapsto> JStr ''test'']
            (queueBatchUpdate [''count'' \<mapsto> JNum 1] (startBatchUpdate (constructor Map.empty ls))))) =
     [''count'' \<mapsto> JNum 1, ''name'' \<mapsto> JStr ''test'']"
    by (simp add: queueBatchUpdate_def startBatchUpdate_def endBatchUpdate_eq Object_assign_def
        applyStateUpdate_eq)
  show ?thesis
    by (simp only: e l x) (simp add: applyStateUpdate_eq commit_listener_calls)
qed

text \<open>The batch of the two objects with one listener subscribed, and the empty batch.\<close>

theorem batch_commits_once_witness:
  "state (endBatchUpdate (foldl (\<lambda>m p. queueBatchUpdate p m)
            (startBatchUpdate (fst (subscribe quiet_listener (constructor Map.empty None))))
            [[''count'' \<mapsto> JNum 1], [''name'' \<mapsto> JStr ''test'']])) =
     [''count'' \<mapsto> JNum 1, ''name'' \<mapsto> JStr ''test''] \<and>
   log (endBatchUpdate (foldl (\<lambda>m p. queueBatchUpdate p m)
            (startBatchUpdate (fst (subscribe quiet_listener (constructor Map.empty None))))
            [[''count'' \<mapsto> JNum 1], [''name'' \<mapsto> JStr ''test'']])) =
     [ListenerCall 3 [''count'' \<mapsto> JNum 1, ''name'' \<mapsto> JStr ''test'']] \<and>
   log (endBatchUpdate (foldl (\<lambda>m p. queueBatchUpdate p m)
            (startBatchUpdate (fst (subscribe quiet_listener (constructor Map.empty None)))) [])) = []"
  using batch_commits_once
    [of "fst (subscribe quiet_listener (constructor Map.empty None))"
        "[[''count'' \<mapsto> JNum 1], [''name'' \<mapsto> JStr ''test'']]"]
    batch_commits_once [of "fst (subscribe quiet_listener (constructor Map.empty None))" "[]"]
  by (simp add: subscribe_def constructor_None commit_log_def enabledMiddlewares_def
      notify_log_def persist_log_def quiet_listener_def queueBatchUpdate_def
      startBatchUpdate_def endBatchUpdate_eq applyStateUpdate_eq Object_assign_def)

subsection \<open>Debouncing\<close>

text \<open>
  C6: a debounced \<open>setState\<close> replaces the pending timer by its own. When every
  further debounced call comes before the delay has elapsed since the call before it,
  nothing is committed or notified during the burst, and once the delay has elapsed
  after the last call exactly one commit has run, that of the last call's argument
  (with the last call's history flag), with one notification of every listener. What
  results is the commit of the last argument alone on the container as it was before
  the burst: the superseded calls leave no trace. The delay of a new container is 200.
\<close>

theorem debounce_commits_last_call:
  assumes "\<forall>c \<in> set calls. fst c < debounceDelay m" and "debounceDelay m \<le> T"
  shows "debounceTimeout (setState s0 a0 True m) = Some (clock m + debounceDelay m, s0, a0) \<and>
    state (burst calls (setState s0 a0 True m)) = state m \<and>
    log (burst calls (setState s0 a0 True m)) = log m \<and>
    undoStack (burst calls (setState s0 a0 True m)) = undoStack m \<and>
    advance T (burst calls (setState s0 a0 True m)) =
      applyStateUpdate (fst (last ((s0, a0) # map snd calls))) (snd (last ((s0, a0) # map snd calls)))
        (m\<lparr>clock := clock m + sum_list (map fst calls) + T, debounceTimeout := None\<rparr>) \<and>
    state (advance T (burst calls (setState s0 a0 True m))) = fst (last ((s0, a0) # map snd calls)) \<and>
    log (advance T (burst calls (setState s0 a0 True m))) =
      log m @ commit_log m (prevState m) (fst (last ((s0, a0) # map snd calls))) \<and>
    filter is_listener_call (commit_log m (prevState m) (fst (last ((s0, a0) # map snd calls)))) =
      map (\<lambda>l. ListenerCall (ref l) (fst (last ((s0, a0) # map snd calls)))) (listeners m) \<and>
    debounceDelay (constructor initial ls) = 200"
proof -
  let ?m0 = "setState s0 a0 True m"
  let ?last = "last ((s0, a0) # map snd calls)"
  have m0: "?m0 = m\<lparr>debounceTimeout := Some (clock m + debounceDelay m, s0, a0)\<rparr>"
    by (rule setState_debounced)
  have b: "burst calls ?m0 =
     m\<lparr>clock := clock m + sum_list (map fst calls),
       debounceTimeout := Some (clock m + sum_list (map fst calls) + debounceDelay m, ?last)\<rparr>"
    using burst_pending [of ?m0 s0 a0 calls] assms(1) by (simp add: m0)
  have "advance T (burst calls ?m0) =
      applyStateUpdate (fst ?last) (snd ?last)
        ((burst calls ?m0)\<lparr>clock := clock (burst calls ?m0) + T, debounceTimeout := None\<rparr>)"
    using assms(2)
    by (intro advance_due [where due = "clock m + sum_list (map fst calls) + debounceDelay m"])
       (simp_all add: b)
  then have f: "advance T (burst calls ?m0) =
      applyStateUpdate (fst ?last) (snd ?last)
        (m\<lparr>clock := clock m + sum_list (map fst calls) + T, debounceTimeout := None\<rparr>)"
    by (simp add: b)
  have c1: "debounceTimeout ?m0 = Some (clock m + debounceDelay m, s0, a0)"
    by (simp add: m0)
  have c2: "state (burst calls ?m0) = state m" "log (burst calls ?m0) = log m"
    "undoStack (burst calls ?m0) = undoStack m"
    by (simp_all add: b)
  have c3: "state (advance T (burst calls ?m0)) = fst ?last"
    "log (advance T (burst calls ?m0)) = log m @ commit_log m (prevState m) (fst ?last)"
    by (simp_all add: f applyStateUpdate_eq)
  show ?thesis
    using c1 c2 c3 f commit_listener_calls [of m "prevState m" "fst ?last"]
      constructor_delay [of initial ls]
    by (intro conjI)
qed

text \<open>Three debounced calls 10 time units apart, then the delay of 200.\<close>

theorem debounce_commits_last_call_witness:
  "debounceDelay (fst (subscribe quiet_listener (constructor Map.empty None))) \<le> 200 \<and>
   state (advance 200 (burst [(10, [''count'' \<mapsto> JNum 2], True), (10, [''count'' \<mapsto> JNum 3], True)]
      (setState [''count'' \<mapsto> JNum 1] True True
         (fst (subscribe quiet_listener (constructor Map.empty None)))))) = [''count'' \<mapsto> JNum 3] \<and>
   log (advance 200 (burst [(10, [''count'' \<mapsto> JNum 2], True), (10, [''count'' \<mapsto> JNum 3], True)]
      (setState [''count'' \<mapsto> JNum 1] True True
         (fst (subscribe quiet_listener (constructor Map.empty None)))))) =
     [ListenerCall 3 [''count'' \<mapsto> JNum 3]] \<and>
   undoStack (advance 200 (burst [(10, [''count'' \<mapsto> JNum 2], True), (10, [''count'' \<mapsto> JNum 3], True)]
      (setState [''count'' \<mapsto> JNum 1] True True
         (fst (subscribe quiet_listener (constructor Map.empty None)))))) = [Map.empty]"
proof -
  let ?m = "fst (subscribe quiet_listener (constructor Map.empty None))"
  let ?calls = "[(10::nat, [''count'' \<mapsto> JNum 2], True), (10, [''count'' \<mapsto> JNum 3], True)]"
  have h1: "\<forall>c \<in> set ?calls. fst c < debounceDelay ?m"
    by (simp add: subscribe_def constructor_None)
  have h2: "debounceDelay ?m \<le> 200"
    by (simp add: subscribe_def constructor_None)
  show ?thesis
    using debounce_commits_last_call [OF h1 h2, of "[''count'' \<mapsto> JNum 1]" True]
    by (simp add: subscribe_def constructor_None applyStateUpdate_eq commit_log_def
        enabledMiddlewares_def notify_log_def persist_log_def quiet_listener_def)
qed

subsection \<open>Detaching listeners\<close>

text \<open>
  C8: the detach function returned by \<open>subscribe\<close> depends on the listener only, so
  every subscription of the same listener returns the same one; calling it removes every
  registration of that reference and leaves the other listeners in place, calling it
  again changes nothing, and it changes nothing when the listener is not registered. The
  same holds for \<open>on\<close> and the callbacks registered under one event name, as long
  as the name is in the registry; when it is not, the detach function throws and the
  registry stays as it is.
\<close>

theorem detach_removes_every_registration:
  "snd (subscribe l m1) = snd (subscribe l m2) \<and>
   listeners (fst (subscribe l m)) = listeners m @ [l] \<and>
   listeners (snd (subscribe l m1) m) = filter (\<lambda>x. ref x \<noteq> ref l) (listeners m) \<and>
   ref l \<notin> ref ` set (listeners (snd (subscribe l m1) m)) \<and>
   snd (subscribe l m1) (snd (subscribe l m1) m) = snd (subscribe l m1) m \<and>
   (ref l \<notin> ref ` set (listeners m) \<longrightarrow> snd (subscribe l m1) m = m) \<and>
   snd (on n cb m1) = snd (on n cb m2) \<and>
   map_of (eventListeners (fst (on n cb m))) n =
     Some ((case map_of (eventListeners m) n of None \<Rightarrow> [] | Some cbs \<Rightarrow> cbs) @ [cb]) \<and>
   (map_of (eventListeners m) n = Some cbs \<longrightarrow>
      fst (snd (on n cb m1) m) = None \<and>
      map_of (eventListeners (snd (snd (on n cb m1) m))) n =
        Some (filter (\<lambda>x. ref x \<noteq> ref cb) cbs) \<and>
      snd (snd (on n cb m1) (snd (snd (on n cb m1) m))) = snd (snd (on n cb m1) m)) \<and>
   (map_of (eventListeners m) n = Some cbs \<and> ref cb \<notin> ref ` set cbs \<longrightarrow>
      snd (snd (on n cb m1) m) = m) \<and>
   (map_of (eventListeners m) n = None \<longrightarrow> snd (on n cb m1) m = (Some TypeError, m))"
proof -
  have idem: "filter (\<lambda>x. ref x \<noteq> r) (filter (\<lambda>x. ref x \<noteq> r) xs) = filter (\<lambda>x. ref x \<noteq> r) xs"
    for r and xs :: "('a callback) list"
    by simp
  have same: "ref l \<notin> ref ` set xs \<Longrightarrow> filter (\<lambda>x. ref x \<noteq> ref l) xs = xs"
    for l :: "'a callback" and xs
    by (induction xs) auto
  have s1: "snd (subscribe l m1) = snd (subscribe l m2)"
    by (simp add: subscribe_def)
  have s2: "listeners (fst (subscribe l m)) = listeners m @ [l]"
    by (simp add: subscribe_def)
  have s3: "listeners (snd (subscribe l m1) m) = filter (\<lambda>x. ref x \<noteq> ref l) (listeners m)"
    by (simp add: subscribe_def)
  have s4: "ref l \<notin> ref ` set (listeners (snd (subscribe l m1) m))"
    by (auto simp: s3)
  have s5: "snd (subscribe l m1) (snd (subscribe l m1) m) = snd (subscribe l m1) m"
    by (simp add: subscribe_def)
  have s6: "ref l \<notin> ref ` set (listeners m) \<longrightarrow> snd (subscribe l m1) m = m"
    by (simp add: subscribe_def same)
  have o1: "snd (on n cb m1) = snd (on n cb m2)"
    by (simp add: on_def Let_def)
  have o2: "map_of (eventListeners (fst (on n cb m))) n =
     Some ((case map_of (eventListeners m) n of None \<Rightarrow> [] | Some cbs \<Rightarrow> cbs) @ [cb])"
    by (simp add: on_def Let_def map_of_map_entry update_conv' split: option.splits)
  have o3: "map_of (eventListeners m) n = Some cbs \<longrightarrow>
      fst (snd (on n cb m1) m) = None \<and>
      map_of (eventListeners (snd (snd (on n cb m1) m))) n =
        Some (filter (\<lambda>x. ref x \<noteq> ref cb) cbs) \<and>
      snd (snd (on n cb m1) (snd (snd (on n cb m1) m))) = snd (snd (on n cb m1) m)"
    by (simp add: on_def Let_def update_conv')
  have o4: "map_of (eventListeners m) n = Some cbs \<and> ref cb \<notin> ref ` set cbs \<longrightarrow>
      snd (snd (on n cb m1) m) = m"
    by (simp add: on_def Let_def same AList.update_triv)
  have o5: "map_of (eventListeners m) n = None \<longrightarrow> snd (on n cb m1) m = (Some TypeError, m)"
    by (simp add: on_def Let_def)
  show ?thesis
    using s1 s2 s3 s4 s5 s6 o1 o2 o3 o4 o5 by (intro conjI)
qed

text \<open>A listener subscribed twice and a callback registered twice, detached once.\<close>

theorem detach_removes_every_registration_witness:
  "listeners (fst (subscribe quiet_listener (fst (subscribe quiet_listener (constructor Map.empty None)))))
     = [quiet_listener, quiet_listener] \<and>
   listeners (snd (subscribe quiet_listener (constructor Map.empty None))
     (fst (subscribe quiet_listener (fst (subscribe quiet_listener (constructor Map.empty None)))))) = [] \<and>
   snd (subscribe quiet_listener (constructor Map.empty None)) (constructor Map.empty None) =
     constructor Map.empty None \<and>
   eventListeners (fst (on ''test'' quiet_callback (fst (on ''test'' quiet_callback (constructor Map.empty None)))))
     = [(''test'', [quiet_callback, quiet_callback])] \<and>
   snd (on ''test'' quiet_callback (constructor Map.empty None))
     (fst (on ''test'' quiet_callback (fst (on ''test'' quiet_callback (constructor Map.empty None))))) =
     (None, (constructor Map.empty None)\<lparr>eventListeners := [(''test'', [])]\<rparr>) \<and>
   snd (on ''test'' quiet_callback (constructor Map.empty None))
     ((constructor Map.empty None)\<lparr>eventListeners := [(''test'', [])]\<rparr>) =
     (None, (constructor Map.empty None)\<lparr>eventListeners := [(''test'', [])]\<rparr>) \<and>
   snd (on ''test'' quiet_callback (constructor Map.empty None)) (constructor Map.empty None) =
     (Some TypeError, constructor Map.empty None)"
  using detach_removes_every_registration
    [where l = quiet_listener and ?m1.0 = "constructor Map.empty None"
       and ?m2.0 = "constructor Map.empty None"
       and m = "(constructor Map.empty None)\<lparr>listeners := [quiet_listener, quiet_listener],
                  eventListeners := [(''test'', [quiet_callback, quiet_callback])]\<rparr>"
       and n = "''test''" and cb = quiet_callback and cbs = "[quiet_callback, quiet_callback]"]
    detach_removes_every_registration
    [where l = quiet_listener and ?m1.0 = "constructor Map.empty None"
       and ?m2.0 = "constructor Map.empty None"
       and m = "constructor Map.empty None"
       and n = "''test''" and cb = quiet_callback and cbs = "[]"]
  by (simp add: subscribe_def on_def constructor_None quiet_listener_def quiet_callback_def)

section \<open>Properties of the persistence service\<close>

text \<open>
  C1: \<open>backupState\<close> is to return false when the save fails. It does not look at what
  \<open>saveState\<close> returns, and \<open>saveState\<close> never throws: when \<open>state.json\<close>
  exists and cannot be written, the save fails for every state and every serialisation,
  the old content is copied to \<open>state.json.backup\<close> and \<open>backupState\<close> returns
  true.
\<close>

theorem backup_hides_failed_save:
  "fst (saveState c st (PersistenceMiddleware ''state.json'' default_options) readonly_fs) = False \<and>
   backupState c st (PersistenceMiddleware ''state.json'' default_options) readonly_fs =
     (True, readonly_fs\<lparr>files := [''state.json'' \<mapsto> ''{}'', ''state.json.backup'' \<mapsto> ''{}'']\<rparr>)"
  by (cases "stringify c st 2")
     (simp_all add: saveState_def backupState_def PersistenceMiddleware_def default_options_def
      readonly_fs_def fs_writeFile_def fs_copyFile_def fs_readFile_def)

text \<open>
  C9: \<open>loadStateWithValidation\<close> returns \<open>null\<close> whenever the loaded value is falsy,
  and a value other than \<open>null\<close> that it returns is the loaded value and is truthy.
  In particular a file that is read and parsed without error to \<open>null\<close>, \<open>false\<close>,
  \<open>0\<close> or the empty string gives \<open>null\<close>, although the value passes
  \<open>validateState\<close>.
\<close>

theorem falsy_load_gives_null:
  "(\<not> truthy (loadState c svc fs) \<longrightarrow> loadStateWithValidation c svc fs = JNull) \<and>
   (loadStateWithValidation c svc fs \<noteq> JNull \<longrightarrow>
      truthy (loadStateWithValidation c svc fs) \<and>
      loadStateWithValidation c svc fs = loadState c svc fs) \<and>
   (fs_readFile (filePath svc) fs = Inr content \<and> fileType (options svc) = ''json'' \<and>
    parse c content = Inr v \<and> validateState c v \<and>
    (v = JNull \<or> v = JBool False \<or> v = JNum 0 \<or> v = JStr '''') \<longrightarrow>
      loadState c svc fs = v \<and> loadStateWithValidation c svc fs = JNull)"
  by (auto simp: loadStateWithValidation_def Let_def loadState_def parseFileContent_def)

text \<open>A file that holds \<open>0\<close>: it loads as the number 0, which is valid, and gives \<open>null\<close>.\<close>

theorem falsy_load_gives_null_witness:
  "fs_readFile ''state.json'' (readonly_fs\<lparr>files := [''state.json'' \<mapsto> ''0'']\<rparr>) = Inr ''0'' \<and>
   parse zero_codec ''0'' = Inr (JNum 0) \<and>
   validateState zero_codec (JNum 0) \<and>
   loadState zero_codec (PersistenceMiddleware ''state.json'' default_options)
     (readonly_fs\<lparr>files := [''state.json'' \<mapsto> ''0'']\<rparr>) = JNum 0 \<and>
   loadStateWithValidation zero_codec (PersistenceMiddleware ''state.json'' default_options)
     (readonly_fs\<lparr>files := [''state.json'' \<mapsto> ''0'']\<rparr>) = JNull"
  using falsy_load_gives_null
    [where c = zero_codec and svc = "PersistenceMiddleware ''state.json'' default_options"
       and fs = "readonly_fs\<lparr>files := [''state.json'' \<mapsto> ''0'']\<rparr>"
       and content = "''0''" and v = "JNum 0"]
  by (simp add: zero_codec_def PersistenceMiddleware_def default_options_def readonly_fs_def
      fs_readFile_def validateState_def)

text \<open>
  C10: when \<open>stat\<close> fails, for a missing file or for any other reason, \<open>getFileSize\<close>
  returns 0 and \<open>isFileEmpty\<close> returns true, exactly as they do for a file that
  exists and has no content.
\<close>

theorem missing_file_looks_empty:
  "(fs_stat (filePath svc) fs = Inl err \<longrightarrow> getFileSize svc fs = 0 \<and> isFileEmpty svc fs) \<and>
   (files fs (filePath svc) = None \<longrightarrow> getFileSize svc fs = 0 \<and> isFileEmpty svc fs) \<and>
   (filePath svc \<notin> inaccessible fs \<and> files fs (filePath svc) = Some [] \<longrightarrow>
      fs_stat (filePath svc) fs = Inr 0 \<and> getFileSize svc fs = 0 \<and> isFileEmpty svc fs)"
  by (simp add: getFileSize_def isFileEmpty_def fs_stat_def)

text \<open>The same answers with no file and with an empty file at \<open>state.json\<close>.\<close>

theorem missing_file_looks_empty_witness:
  "fs_stat ''state.json'' (readonly_fs\<lparr>files := Map.empty\<rparr>) = Inl ENOENT \<and>
   getFileSize (PersistenceMiddleware ''state.json'' default_options) (readonly_fs\<lparr>files := Map.empty\<rparr>) = 0 \<and>
   isFileEmpty (PersistenceMiddleware ''state.json'' default_options) (readonly_fs\<lparr>files := Map.empty\<rparr>) \<and>
   getFileSize (PersistenceMiddleware ''state.json'' default_options)
     (readonly_fs\<lparr>files := [''state.json'' \<mapsto> []]\<rparr>) = 0 \<and>
   isFileEmpty (PersistenceMiddleware ''state.json'' default_options)
     (readonly_fs\<lparr>files := [''state.json'' \<mapsto> []]\<rparr>)"
  using missing_file_looks_empty
    [where svc = "PersistenceMiddleware ''state.json'' default_options"
       and fs = "readonly_fs\<lparr>files := Map.empty\<rparr>" and err = ENOENT]
    missing_file_looks_empty
    [where svc = "PersistenceMiddleware ''state.json'' default_options"
       and fs = "readonly_fs\<lparr>files := [''state.json'' \<mapsto> []]\<rparr>" and err = ENOENT]
  by (simp add: PersistenceMiddleware_def default_options_def readonly_fs_def fs_stat_def)

section \<open>Properties of the copies handed out\<close>

text \<open>
  C7: in deep mode, whatever a caller reaches from the value returned by \<open>getState\<close>
  is an object allocated by that call: an assignment to it leaves every object that
  existed before untouched, and the held state still reads the same. In shallow mode
  the returned object is new, but its properties are those of the held state: a nested
  object reached through the copy is the nested object of the held state, and an
  assignment to one of its properties is what the held state reads afterwards.
\<close>

theorem getState_copy_aliasing:
  "(getState_on_heap True held h = Inr (v, h') \<and> lookup_path h' v path = Some target \<and>
    assign h' target k x = Some h'' \<longrightarrow>
      new_val (length h) target \<and> take (length h) h'' = h \<and>
      JSON_stringify h'' held = JSON_stringify h held) \<and>
   (getState_on_heap False held h = Inr (v, h') \<and> held = VRef a \<and> a < length h \<and>
    map_of (props (h ! a)) k = Some (VRef b) \<and> b < length h \<and> b \<noteq> a \<and>
    lookup_path h' v [k] = Some target \<and> assign h' target key x = Some h'' \<longrightarrow>
      v = VRef (length h) \<and> target = VRef b \<and> lookup_path h'' held [k, key] = Some x)"
proof (intro conjI impI)
  assume A: "getState_on_heap True held h = Inr (v, h') \<and> lookup_path h' v path = Some target \<and>
    assign h' target k x = Some h''"
  then obtain j where t: "read_json (length h) h held = Some j"
    and p: "JSON_parse j h = (v, h')"
    by (auto simp: getState_on_heap_def JSON_stringify_def split: option.splits)
  from parse_new(1) [OF p] obtain new where
    n: "h' = h @ new" "list_all (new_obj (length h)) new" "new_val (length h) v"
    by blast
  from A have l: "lookup_path (h @ new) v path = Some target"
    by (simp add: n(1))
  show nt: "new_val (length h) target"
    by (rule lookup_new [OF n(2) n(3) l])
  from A have as: "assign h' target k x = Some h''" by simp
  from assign_new [OF nt as] have len: "length h'' = length h'"
    and same: "\<And>c. c < length h \<Longrightarrow> h'' ! c = h' ! c"
    by simp_all
  have same_h: "\<And>c. c < length h \<Longrightarrow> h'' ! c = h ! c"
    by (simp add: same n(1) nth_append)
  show "take (length h) h'' = h"
    by (rule nth_equalityI) (simp_all add: len n(1) same_h)
  have "read_json (length h'') h'' held = Some j"
    using t by (rule read_json_stable) (simp_all add: len n(1) same_h)
  then show "JSON_stringify h'' held = JSON_stringify h held"
    by (simp add: JSON_stringify_def t)
next
  assume B: "getState_on_heap False held h = Inr (v, h') \<and> held = VRef a \<and> a < length h \<and>
    map_of (props (h ! a)) k = Some (VRef b) \<and> b < length h \<and> b \<noteq> a \<and>
    lookup_path h' v [k] = Some target \<and> assign h' target key x = Some h''"
  then have g: "getState_on_heap False held h = Inr (v, h')" and held: "held = VRef a"
    and a: "a < length h" and kb: "map_of (props (h ! a)) k = Some (VRef b)"
    and b: "b < length h" and ba: "b \<noteq> a"
    and l: "lookup_path h' v [k] = Some target" and as: "assign h' target key x = Some h''"
    by blast+
  from g held a have v: "v = VRef (length h)" and h': "h' = h @ [Obj False (props (h ! a))]"
    by (auto simp: getState_on_heap_def spread_object_def own_props_def)
  show "v = VRef (length h)" by (rule v)
  from l kb show t: "target = VRef b"
    by (simp add: v h')
  from as t b have h'': "h'' = h'[b := Obj (is_array (h' ! b)) (AList.update key x (props (h' ! b)))]"
    by (simp add: assign_def h')
  show "lookup_path h'' held [k, key] = Some x"
    using a b ba kb by (simp add: held h'' h' nth_append update_conv')
qed

text \<open>
  The container holds \<open>{nested: {value: 1}}\<close> and the caller runs
  \<open>getState().nested.value = 2\<close>: afterwards the held state reads 1 in deep mode and
  2 in shallow mode.
\<close>

theorem getState_copy_aliasing_witness:
  "getState_on_heap True (VRef 1) nested_heap = Inr (VRef 3, deep_copy_heap) \<and>
   lookup_path deep_copy_heap (VRef 3) [''nested''] = Some (VRef 2) \<and>
   assign deep_copy_heap (VRef 2) ''value'' (VNum 2) =
     Some (nested_heap @ [Obj False [(''value'', VNum 2)], Obj False [(''nested'', VRef 2)]]) \<and>
   lookup_path (nested_heap @ [Obj False [(''value'', VNum 2)], Obj False [(''nested'', VRef 2)]])
     (VRef 1) [''nested'', ''value''] = Some (VNum 1) \<and>
   getState_on_heap False (VRef 1) nested_heap = Inr (VRef 2, shallow_copy_heap) \<and>
   lookup_path shallow_copy_heap (VRef 2) [''nested''] = Some (VRef 0) \<and>
   assign shallow_copy_heap (VRef 0) ''value'' (VNum 2) =
     Some [Obj False [(''value'', VNum 2)], Obj False [(''nested'', VRef 0)],
           Obj False [(''nested'', VRef 0)]] \<and>
   lookup_path [Obj False [(''value'', VNum 2)], Obj False [(''nested'', VRef 0)],
                Obj False [(''nested'', VRef 0)]] (VRef 1) [''nested'', ''value''] = Some (VNum 2)"
  using getState_copy_aliasing
    [where held = "VRef 1" and h = nested_heap and v = "VRef 3" and h' = deep_copy_heap
       and path = "[''nested'']" and target = "VRef 2" and k = "''value''" and x = "VNum 2"
       and h'' = "nested_heap @ [Obj False [(''value'', VNum 2)], Obj False [(''nested'', VRef 2)]]"
       and a = 1 and b = 0 and key = "''value''"]
    getState_copy_aliasing
    [where held = "VRef 1" and h = nested_heap and v = "VRef 2" and h' = shallow_copy_heap
       and path = "[''nested'']" and target = "VRef 0" and k = "''nested''" and x = "VNum 2"
       and h'' = "[Obj False [(''value'', VNum 2)], Obj False [(''nested'', VRef 0)],
                   Obj False [(''nested'', VRef 0)]]"
       and a = 1 and b = 0 and key = "''value''"]
  by (simp add: getState_on_heap_def JSON_stringify_def spread_object_def own_props_def
      nested_heap_def deep_copy_heap_def shallow_copy_heap_def assign_def eval_nat_numeral)

end
